theory Spec2Isabelle
  imports Complex_Main
begin

section \<open>Numbers and arrays of the indicator code\<close>

subsection \<open>Binary64 rounding\<close>

text \<open>
  The indicator functions compute with JavaScript numbers: IEEE 754 binary64 values.
  A finite one is modelled by the real number it denotes, and every arithmetic
  operation rounds its exact result to the nearest binary64 value, ties going to the
  even significand.  \<open>round_even t\<close> is the integer nearest to \<open>t\<close> under that rule.
  \<open>exponent x\<close> is the binary exponent of \<open>x\<close>, not below that of the smallest normal
  number, so that \<open>ulp x\<close> is the spacing of the binary64 values around \<open>x\<close>
  (\<open>2 powi (- 1074)\<close> in the subnormal range); \<open>rnd x\<close> is \<open>x\<close> rounded to a multiple of
  it.  \<open>is_f64 x\<close> says that \<open>x\<close> is a finite binary64 value: rounding leaves it as it
  is, and it is below \<open>2 ^ 1024\<close>, where rounding overflows.
\<close>

definition round_even :: "real \<Rightarrow> int" where
  "round_even t = (let f = \<lfloor>t\<rfloor>; d = t - of_int f
                   in if d < 1 / 2 then f else if 1 / 2 < d then f + 1
                      else if even f then f else f + 1)"

definition exponent :: "real \<Rightarrow> int" where
  "exponent x = max \<lfloor>log 2 \<bar>x\<bar>\<rfloor> (- 1022)"

definition ulp :: "real \<Rightarrow> real" where
  "ulp x = 2 powi (exponent x - 52)"

definition rnd :: "real \<Rightarrow> real" where
  "rnd x = (if x = 0 then 0 else of_int (round_even (x / ulp x)) * ulp x)"

definition is_f64 :: "real \<Rightarrow> bool" where
  "is_f64 x \<longleftrightarrow> rnd x = x \<and> \<bar>x\<bar> < 2 ^ 1024"

subsection \<open>JavaScript values in numeric cells\<close>

text \<open>
  A cell of a data array holds a number, \<open>null\<close> or \<open>undefined\<close>.  The numbers are the
  finite ones \<open>Num r\<close> (\<open>Num 0\<close> is \<open>+0\<close>), the negative zero, the two infinities and
  NaN.  The equality of this type is the identity of values, not JavaScript's \<open>===\<close>,
  which is \<open>strict_eq\<close> below: NaN is not \<open>===\<close> to itself, and the two zeros are.
\<close>

datatype jsnum = Num real | NegZero | PosInf | NegInf | NaN | Null | Undefined

text \<open>The conversion to a number that arithmetic applies: \<open>null\<close> is \<open>+0\<close>, \<open>undefined\<close> is NaN.\<close>

fun ToNumber :: "jsnum \<Rightarrow> jsnum" where
  "ToNumber Null = Num 0"
| "ToNumber Undefined = NaN"
| "ToNumber v = v"

fun val :: "jsnum \<Rightarrow> real" where
  "val (Num r) = r"
| "val v = 0"

fun signbit :: "jsnum \<Rightarrow> bool" where
  "signbit (Num r) = (r < 0)"
| "signbit NegZero = True"
| "signbit NegInf = True"
| "signbit v = False"

fun is_inf :: "jsnum \<Rightarrow> bool" where
  "is_inf PosInf = True"
| "is_inf NegInf = True"
| "is_inf v = False"

definition is_zero :: "jsnum \<Rightarrow> bool" where
  "is_zero v \<longleftrightarrow> v = Num 0 \<or> v = NegZero"

definition signed_zero :: "bool \<Rightarrow> jsnum" where
  "signed_zero s = (if s then NegZero else Num 0)"

definition signed_inf :: "bool \<Rightarrow> jsnum" where
  "signed_inf s = (if s then NegInf else PosInf)"

text \<open>
  The binary64 value of a nonzero exact result \<open>x\<close>: an infinity when the rounded value
  is out of range, a zero of the sign of \<open>x\<close> when it underflows.
\<close>

definition fl :: "real \<Rightarrow> jsnum" where
  "fl x = (let r = rnd x
           in if 2 ^ 1024 \<le> \<bar>r\<bar> then signed_inf (x < 0)
              else if r = 0 then signed_zero (x < 0)
              else Num r)"

text \<open>
  The operators \<open>+\<close>, unary \<open>-\<close>, \<open>-\<close>, \<open>*\<close> and \<open>/\<close> on such cells.  An exact sum that is
  zero is \<open>+0\<close> unless both summands are \<open>-0\<close>; the sign of a product or quotient is the
  exclusive or of the signs.
\<close>

definition jadd :: "jsnum \<Rightarrow> jsnum \<Rightarrow> jsnum" where
  "jadd a b =
     (let x = ToNumber a; y = ToNumber b
      in if x = NaN \<or> y = NaN then NaN
         else if is_inf x then (if is_inf y \<and> x \<noteq> y then NaN else x)
         else if is_inf y then y
         else if val x + val y = 0
              then (if x = NegZero \<and> y = NegZero then NegZero else Num 0)
              else fl (val x + val y))"

definition jneg :: "jsnum \<Rightarrow> jsnum" where
  "jneg a =
     (case ToNumber a of
        Num r \<Rightarrow> if r = 0 then NegZero else Num (- r)
      | NegZero \<Rightarrow> Num 0
      | PosInf \<Rightarrow> NegInf
      | NegInf \<Rightarrow> PosInf
      | _ \<Rightarrow> NaN)"

definition jsub :: "jsnum \<Rightarrow> jsnum \<Rightarrow> jsnum" where
  "jsub a b = jadd a (jneg b)"

definition jmul :: "jsnum \<Rightarrow> jsnum \<Rightarrow> jsnum" where
  "jmul a b =
     (let x = ToNumber a; y = ToNumber b; s = (signbit x \<noteq> signbit y)
      in if x = NaN \<or> y = NaN then NaN
         else if is_inf x \<or> is_inf y
              then (if is_zero x \<or> is_zero y then NaN else signed_inf s)
         else if is_zero x \<or> is_zero y then signed_zero s
         else fl (val x * val y))"

definition jdiv :: "jsnum \<Rightarrow> jsnum \<Rightarrow> jsnum" where
  "jdiv a b =
     (let x = ToNumber a; y = ToNumber b; s = (signbit x \<noteq> signbit y)
      in if x = NaN \<or> y = NaN then NaN
         else if is_inf x then (if is_inf y then NaN else signed_inf s)
         else if is_inf y then signed_zero s
         else if is_zero y then (if is_zero x then NaN else signed_inf s)
         else if is_zero x then signed_zero s
         else fl (val x / val y))"


text \<open>An element of \<open>yData\<close>: a number, \<open>null\<close> or \<open>undefined\<close>, or a row such as
  \<open>[open, high, low, close]\<close>.\<close>

datatype yval = Scalar jsnum | Row "jsnum list"

fun isArray :: "yval \<Rightarrow> bool" where
  "isArray (Row cs) = True"
| "isArray (Scalar v) = False"

text \<open>Reading a property of \<open>null\<close> or \<open>undefined\<close> throws.\<close>

datatype error = TypeError

text \<open>\<open>xs[i]\<close> on an array of numbers: \<open>undefined\<close> out of range.\<close>

definition elemAt :: "jsnum list \<Rightarrow> nat \<Rightarrow> jsnum" where
  "elemAt xs i = (if i < length xs then xs ! i else Undefined)"

text \<open>
  \<open>target[k]\<close> for an element \<open>target\<close> of \<open>yData\<close>: the component of a row, a
  \<open>TypeError\<close> on \<open>null\<close> and \<open>undefined\<close>, and \<open>undefined\<close> on a number, which has no
  such property.
\<close>

fun rowAt :: "yval \<Rightarrow> nat \<Rightarrow> error + jsnum" where
  "rowAt (Row cs) k = Inr (elemAt cs k)"
| "rowAt (Scalar Null) k = Inl TypeError"
| "rowAt (Scalar Undefined) k = Inl TypeError"
| "rowAt (Scalar v) k = Inr Undefined"

text \<open>\<open>yVal[i][k]\<close>: out of range \<open>yVal[i]\<close> is \<open>undefined\<close>.\<close>

definition componentAt :: "yval list \<Rightarrow> nat \<Rightarrow> nat \<Rightarrow> error + jsnum" where
  "componentAt yVal i k = (if i < length yVal then rowAt (yVal ! i) k else Inl TypeError)"

text \<open>
  A series has the parallel arrays \<open>xData\<close> and \<open>yData\<close>; an indicator returns them
  with the points (the field \<open>values\<close> of the source, a reserved word here).
\<close>

record 'y series =
  xData :: "jsnum list"
  yData :: 'y

record 'y values_object = "'y series" +
  values' :: "jsnum list list"

text \<open>A \<open>for\<close> loop over the given indices, stopping at the first exception.\<close>

fun for_loop :: "nat list \<Rightarrow> (nat \<Rightarrow> 's \<Rightarrow> error + 's) \<Rightarrow> 's \<Rightarrow> error + 's" where
  "for_loop [] body s = Inr s"
| "for_loop (i # rest) body s =
     (case body i s of Inl e \<Rightarrow> Inl e | Inr s' \<Rightarrow> for_loop rest body s')"

section \<open>SMA: \<open>SMAIndicator.getValues\<close>\<close>

text \<open>
  The \<open>yData\<close> that \<open>getValues\<close> works on is either an array of plain values, every
  element a number, \<open>null\<close> or \<open>undefined\<close>, or an array whose first element is a row;
  its other elements may be anything.  (An array that starts with a plain value and
  holds a row further on is not represented: there \<open>sum += yVal[i]\<close> concatenates
  strings.)
\<close>

datatype ydata = Numbers "jsnum list" | Rows "jsnum list" "yval list"

fun elements :: "ydata \<Rightarrow> yval list" where
  "elements (Numbers vs) = map Scalar vs"
| "elements (Rows first rest) = Row first # rest"

record sma_params =
  period :: nat
  index :: "nat option"

text \<open>
  \<open>if (isArray(yVal[0])) index = params.index ? params.index : 0\<close>, else \<open>-1\<close>; then
  the expression \<open>index < 0 ? yVal[i] : yVal[i][index]\<close>.  An array of plain values
  is read with the index \<open>-1\<close>, one that starts with a row with the index chosen.
\<close>

fun sma_read :: "ydata \<Rightarrow> sma_params \<Rightarrow> nat \<Rightarrow> error + jsnum" where
  "sma_read (Numbers vs) params i = Inr (elemAt vs i)"
| "sma_read (Rows first rest) params i =
     componentAt (Row first # rest) i (case index params of None \<Rightarrow> 0 | Some k \<Rightarrow> k)"

text \<open>The body of \<open>while (range < period - 1) { sum += ...; range++ }\<close>.\<close>

definition sma_accumulate :: "ydata \<Rightarrow> sma_params \<Rightarrow> nat \<Rightarrow> jsnum \<Rightarrow> error + jsnum" where
  "sma_accumulate yVal params rangev sumv =
     (case sma_read yVal params rangev of Inl e \<Rightarrow> Inl e | Inr v \<Rightarrow> Inr (jadd sumv v))"

text \<open>
  The body of the main loop, on the state \<open>(sum, SMA, xData, yData)\<close>: add the newest
  value, push the point \<open>[xVal[i], sum / period]\<close>, subtract the value leaving the window.
\<close>

definition sma_step ::
  "ydata \<Rightarrow> sma_params \<Rightarrow> nat \<Rightarrow> jsnum list \<Rightarrow> nat \<Rightarrow>
   jsnum \<times> jsnum list list \<times> jsnum list \<times> jsnum list \<Rightarrow>
   error + (jsnum \<times> jsnum list list \<times> jsnum list \<times> jsnum list)" where
  "sma_step yVal params rangev xVal i st =
     (case st of (sumv, SMA, xs, ys) \<Rightarrow>
        (case sma_read yVal params i of Inl e \<Rightarrow> Inl e | Inr v \<Rightarrow>
           let sum1 = jadd sumv v;
               SMAPoint = [elemAt xVal i, jdiv sum1 (Num (real (period params)))]
           in (case sma_read yVal params (i - rangev) of Inl e \<Rightarrow> Inl e | Inr w \<Rightarrow>
                 Inr (jsub sum1 w, SMA @ [SMAPoint], xs @ [SMAPoint ! 0], ys @ [SMAPoint ! 1]))))"

text \<open>
  \<open>getValues\<close> returns \<open>false\<close> (here \<open>None\<close>) when \<open>xVal.length < period\<close>.  The
  accumulation runs \<open>range\<close> from 0 up to \<open>period - 1\<close>, the main loop \<open>i\<close> from there
  up to \<open>yValLen\<close>.
\<close>

definition SMA_getValues ::
  "ydata series \<Rightarrow> sma_params \<Rightarrow> error + jsnum list values_object option" where
  "SMA_getValues series params =
     (let p = period params;
          xVal = xData series;
          yVal = yData series;
          yValLen = length (elements yVal)
      in if length xVal < p then Inr None
         else
           let rangev = p - 1
           in (case for_loop [0..<rangev] (sma_accumulate yVal params) (Num 0) of
                 Inl e \<Rightarrow> Inl e
               | Inr sumv \<Rightarrow>
                  (case for_loop [rangev..<yValLen] (sma_step yVal params rangev xVal)
                          (sumv, [], [], []) of
                     Inl e \<Rightarrow> Inl e
                   | Inr (sumv', SMA, xs, ys) \<Rightarrow>
                       Inr (Some \<lparr>xData = xs, yData = ys, values' = SMA\<rparr>))))"

text \<open>
  Auxiliary notions for stating results about \<open>getValues\<close>, for the values
  \<open>v 0, v 1, \<dots>\<close> that it reads and the period \<open>p\<close>.  \<open>sma_sum v p j\<close> is the running
  sum on entry to the \<open>j\<close>-th iteration of the main loop: the first \<open>p - 1\<close> values
  added up from the left for \<open>j = 0\<close>, and then, each time, the newest value added
  and the value that leaves the window subtracted.  \<open>sma_point xVal v p j\<close> is the
  \<open>j\<close>-th point: the input x at index \<open>p - 1 + j\<close>, and the running sum with the
  newest value added, divided by \<open>p\<close>.
\<close>

fun sma_sum :: "(nat \<Rightarrow> jsnum) \<Rightarrow> nat \<Rightarrow> nat \<Rightarrow> jsnum" where
  "sma_sum v p 0 = foldl jadd (Num 0) (map v [0..<p - 1])"
| "sma_sum v p (Suc j) = jsub (jadd (sma_sum v p j) (v (p - 1 + j))) (v j)"

definition sma_point :: "jsnum list \<Rightarrow> (nat \<Rightarrow> jsnum) \<Rightarrow> nat \<Rightarrow> nat \<Rightarrow> jsnum list" where
  "sma_point xVal v p j =
     [elemAt xVal (p - 1 + j), jdiv (jadd (sma_sum v p j) (v (p - 1 + j))) (Num (real p))]"

section \<open>Stochastic: \<open>StochasticIndicator.getValues\<close>\<close>

text \<open>
  \<open>Math.min\<close> and \<open>Math.max\<close> of two cells: NaN as soon as an argument is not a
  number, and \<open>-0\<close> below \<open>+0\<close>.  \<open>jless\<close> is \<open><\<close> on numbers other than NaN.
\<close>

definition jless :: "jsnum \<Rightarrow> jsnum \<Rightarrow> bool" where
  "jless x y \<longleftrightarrow>
     (x = NegInf \<and> y \<noteq> NegInf) \<or> (y = PosInf \<and> x \<noteq> PosInf) \<or>
     (\<not> is_inf x \<and> \<not> is_inf y \<and> val x < val y)"

definition jmin :: "jsnum \<Rightarrow> jsnum \<Rightarrow> jsnum" where
  "jmin a b =
     (let x = ToNumber a; y = ToNumber b
      in if x = NaN \<or> y = NaN then NaN
         else if jless x y \<or> (is_zero x \<and> is_zero y \<and> signbit x) then x else y)"

definition jmax :: "jsnum \<Rightarrow> jsnum \<Rightarrow> jsnum" where
  "jmax a b =
     (let x = ToNumber a; y = ToNumber b
      in if x = NaN \<or> y = NaN then NaN
         else if jless y x \<or> (is_zero x \<and> is_zero y \<and> \<not> signbit x) then x else y)"

text \<open>
  Modelled from the spec: \<open>getArrayExtremes\<close> of the mixin \<open>reduce-array\<close>, which is not
  among the sources.  The spec names its two results \<open>lowestLow(window)\<close> and
  \<open>highestHigh(window)\<close>: the lowest value of component \<open>minIndex\<close> and the highest
  value of component \<open>maxIndex\<close> over the rows of the window, read as \<open>target[minIndex]\<close>
  and \<open>target[maxIndex]\<close>, which throws on an element that is \<open>null\<close> or \<open>undefined\<close>.
  An empty window has neither; the caller below never reads them in that case.
\<close>

fun extremes_from ::
  "yval list \<Rightarrow> nat \<Rightarrow> nat \<Rightarrow> jsnum \<times> jsnum \<Rightarrow> error + (jsnum \<times> jsnum)" where
  "extremes_from [] minIndex maxIndex prev = Inr prev"
| "extremes_from (target # rest) minIndex maxIndex prev =
     (case rowAt target minIndex of Inl e \<Rightarrow> Inl e | Inr lo \<Rightarrow>
        (case rowAt target maxIndex of Inl e \<Rightarrow> Inl e | Inr hi \<Rightarrow>
           extremes_from rest minIndex maxIndex (jmin (fst prev) lo, jmax (snd prev) hi)))"

definition getArrayExtremes :: "yval list \<Rightarrow> nat \<Rightarrow> nat \<Rightarrow> error + (jsnum \<times> jsnum)" where
  "getArrayExtremes arr minIndex maxIndex =
     (case arr of
        [] \<Rightarrow> Inr (NaN, NaN)
      | first # rest \<Rightarrow>
          (case rowAt first minIndex of Inl e \<Rightarrow> Inl e | Inr lo \<Rightarrow>
             (case rowAt first maxIndex of Inl e \<Rightarrow> Inl e | Inr hi \<Rightarrow>
                extremes_from rest minIndex maxIndex (jmin lo lo, jmax hi hi))))"

text \<open>\<open>arr.slice(a, b)\<close> for \<open>0 \<le> a\<close>, and \<open>arr.slice(-k)\<close>; \<open>slice(-0)\<close> is the whole array.\<close>

definition slice :: "nat \<Rightarrow> nat \<Rightarrow> 'a list \<Rightarrow> 'a list" where
  "slice a b arr = take (b - a) (drop a arr)"

definition slice_from_end :: "nat \<Rightarrow> 'a list \<Rightarrow> 'a list" where
  "slice_from_end k arr = (if k = 0 then arr else drop (length arr - k) arr)"

record stochastic_params =
  periods :: "nat \<times> nat"

text \<open>
  The computation of \<open>%K\<close> at input index \<open>i\<close> (with \<open>periodK - 1 \<le> i < yValLen\<close>):
  \<open>slicedY = yVal.slice(i - periodK + 1, i + 1)\<close>, the extremes of its low (component 2)
  and high (component 1), \<open>CL = yVal[i][close] - LL\<close>, \<open>HL = extremes[1] - LL\<close>,
  \<open>K = CL / HL * 100\<close>.
\<close>

definition percentK :: "yval list \<Rightarrow> nat \<Rightarrow> nat \<Rightarrow> error + jsnum" where
  "percentK yVal periodK i =
     (let slicedY = slice (i + 1 - periodK) (i + 1) yVal
      in (case getArrayExtremes slicedY 2 1 of Inl e \<Rightarrow> Inl e | Inr extremes \<Rightarrow>
            let LL = fst extremes
            in (case componentAt yVal i 3 of Inl e \<Rightarrow> Inl e | Inr c \<Rightarrow>
                  let CL = jsub c LL;
                      HL = jsub (snd extremes) LL
                  in Inr (jmul (jdiv CL HL) (Num 100)))))"

text \<open>
  The smoothed \<open>%D\<close>: \<open>SMA.prototype.getValues\<close> on the last \<open>periodD\<close> entries of
  \<open>xData\<close> and \<open>yData\<close> with \<open>{period: periodD}\<close>, then \<open>points.yData[0]\<close>.  The
  entries of \<open>yData\<close> are the rows \<open>[K, D]\<close> pushed so far.  Were the result \<open>false\<close>,
  reading \<open>yData\<close> of it would give \<open>undefined\<close> and indexing that throws.
\<close>

definition rows_ydata :: "jsnum list list \<Rightarrow> ydata" where
  "rows_ydata rows = (case rows of [] \<Rightarrow> Numbers [] | first # rest \<Rightarrow> Rows first (map Row rest))"

definition smoothedD :: "nat \<Rightarrow> jsnum list \<Rightarrow> jsnum list list \<Rightarrow> error + jsnum" where
  "smoothedD periodD xs ys =
     (case SMA_getValues \<lparr>xData = slice_from_end periodD xs,
                           yData = rows_ydata (slice_from_end periodD ys)\<rparr>
                          \<lparr>period = periodD, index = None\<rparr> of
        Inl e \<Rightarrow> Inl e
      | Inr None \<Rightarrow> Inl TypeError
      | Inr (Some points) \<Rightarrow> Inr (elemAt (yData points) 0))"

text \<open>
  The loop body on the state \<open>(SO, xData, yData, D)\<close>: push \<open>xVal[i]\<close> and \<open>[K, null]\<close>,
  recompute \<open>D\<close> once \<open>i \<ge> (periodK - 1) + (periodD - 1)\<close>, push \<open>[xVal[i], K, D]\<close> and
  store \<open>D\<close> in the row just pushed.  \<open>D\<close> keeps its value between iterations.
\<close>

definition stochastic_step ::
  "nat \<Rightarrow> nat \<Rightarrow> jsnum list \<Rightarrow> yval list \<Rightarrow> nat \<Rightarrow>
   jsnum list list \<times> jsnum list \<times> jsnum list list \<times> jsnum \<Rightarrow>
   error + (jsnum list list \<times> jsnum list \<times> jsnum list list \<times> jsnum)" where
  "stochastic_step periodK periodD xVal yVal i st =
     (case st of (SO, xs, ys, D) \<Rightarrow>
        (case percentK yVal periodK i of Inl e \<Rightarrow> Inl e | Inr K \<Rightarrow>
           let xs1 = xs @ [elemAt xVal i];
               ys1 = ys @ [[K, Null]]
           in (case (if (periodK - 1) + (periodD - 1) \<le> i
                     then smoothedD periodD xs1 ys1 else Inr D) of
                 Inl e \<Rightarrow> Inl e
               | Inr D1 \<Rightarrow> Inr (SO @ [[elemAt xVal i, K, D1]], xs1, ys @ [[K, D1]], D1))))"

text \<open>
  \<open>getValues\<close> returns \<open>false\<close> unless there are at least \<open>periodK\<close> points and the first
  is a row of four components.  The loop starts at \<open>i = periodK - 1\<close>; with
  \<open>periodK = 0\<close> that is \<open>-1\<close>, where \<open>yVal[i]\<close> is \<open>undefined\<close> and reading its close
  throws.
\<close>

definition Stochastic_getValues ::
  "yval list series \<Rightarrow> stochastic_params \<Rightarrow> error + (jsnum list list) values_object option" where
  "Stochastic_getValues series params =
     (let periodK = fst (periods params);
          periodD = snd (periods params);
          xVal = xData series;
          yVal = yData series;
          yValLen = length yVal
      in if yValLen < periodK \<or> \<not> (yVal \<noteq> [] \<and> isArray (yVal ! 0)) \<or>
            (case yVal ! 0 of Row cs \<Rightarrow> length cs \<noteq> 4 | Scalar v \<Rightarrow> True)
         then Inr None
         else if periodK = 0 then Inl TypeError
         else (case for_loop [periodK - 1..<yValLen]
                      (stochastic_step periodK periodD xVal yVal) ([], [], [], Null) of
                 Inl e \<Rightarrow> Inl e
               | Inr (SO, xs, ys, D) \<Rightarrow>
                   Inr (Some \<lparr>xData = xs, yData = ys, values' = SO\<rparr>)))"

text \<open>
  Auxiliary notions for stating results.  \<open>jmean\<close> is the mean as the SMA computes it
  for a single window: the values added from the left, divided by their number.
  \<open>bar_row\<close> turns an open-high-low-close bar of finite numbers into a row.
\<close>

definition jmean :: "jsnum list \<Rightarrow> jsnum" where
  "jmean vs = jdiv (foldl jadd (Num 0) vs) (Num (real (length vs)))"

definition bar_row :: "real \<times> real \<times> real \<times> real \<Rightarrow> yval" where
  "bar_row b = (case b of (openv, high, low, closev) \<Rightarrow> Row [Num openv, Num high, Num low, Num closev])"

definition bar_high :: "real \<times> real \<times> real \<times> real \<Rightarrow> real" where
  "bar_high b = fst (snd b)"

definition bar_low :: "real \<times> real \<times> real \<times> real \<Rightarrow> real" where
  "bar_low b = fst (snd (snd b))"

definition bar_close :: "real \<times> real \<times> real \<times> real \<Rightarrow> real" where
  "bar_close b = snd (snd (snd b))"

text \<open>
  The \<open>%D\<close> expected at input index \<open>i\<close>, for the values \<open>K i\<close> of \<open>%K\<close>: \<open>null\<close>
  before the index \<open>(periodK - 1) + (periodD - 1)\<close>, from there on the mean of the last
  \<open>periodD\<close> values of \<open>%K\<close>.
\<close>

definition expectedD :: "(nat \<Rightarrow> jsnum) \<Rightarrow> nat \<Rightarrow> nat \<Rightarrow> nat \<Rightarrow> jsnum" where
  "expectedD K periodK periodD i =
     (if i < (periodK - 1) + (periodD - 1) then Null
      else jmean (map K [i + 1 - periodD..<i + 1]))"

text \<open>
  \<open>Number.MAX_VALUE\<close>, the largest finite binary64 number, and the bars all of whose
  components are binary64 numbers.
\<close>

definition MAX_VALUE :: real where
  "MAX_VALUE = (2 ^ 53 - 1) * 2 powi 971"

definition f64_bar :: "real \<times> real \<times> real \<times> real \<Rightarrow> bool" where
  "f64_bar b \<longleftrightarrow>
     (case b of (openv, high, low, closev) \<Rightarrow>
        is_f64 openv \<and> is_f64 high \<and> is_f64 low \<and> is_f64 closev)"

section \<open>The EMA cascade: \<open>DEMAIndicator\<close>, \<open>TEMAIndicator\<close>, \<open>PPOIndicator\<close>\<close>

text \<open>
  Modelled from the spec: \<open>H.correctFloat\<close>, which is not among the sources.  The spec
  describes it as rounding to a fixed decimal precision; Highcharts rounds to 14
  significant digits, and so does this definition: \<open>e\<close> is the decimal exponent of the
  leading digit.
\<close>

definition correctFloat_real :: "real \<Rightarrow> real" where
  "correctFloat_real v =
     (if v = 0 then 0
      else let e = \<lfloor>log 10 \<bar>v\<bar>\<rfloor>
           in of_int (round (v / 10 powi (e - 13))) * 10 powi (e - 13))"

text \<open>
  The decimal numeral is read back as a number (\<open>parseFloat\<close>), which rounds it to
  binary64.  The arguments are results of arithmetic, hence never \<open>null\<close> or
  \<open>undefined\<close>; the sign of a zero is not printed.
\<close>

fun correctFloat :: "jsnum \<Rightarrow> jsnum" where
  "correctFloat (Num v) = fl (correctFloat_real v)"
| "correctFloat NegZero = Num 0"
| "correctFloat PosInf = PosInf"
| "correctFloat NegInf = NegInf"
| "correctFloat NaN = NaN"
| "correctFloat Null = NaN"
| "correctFloat Undefined = NaN"

text \<open>\<open>xs[k]\<close> for an integer \<open>k\<close> that may be negative: \<open>undefined\<close> out of range.\<close>

definition elemAtI :: "jsnum list \<Rightarrow> int \<Rightarrow> jsnum" where
  "elemAtI xs k = (if 0 \<le> k \<and> nat k < length xs then xs ! nat k else Undefined)"

text \<open>
  The index that DEMA and TEMA select, as the SMA does:
  \<open>if (isArray(yVal[0])) index = params.index ? params.index : 0\<close>, else \<open>-1\<close> (\<open>None\<close>).
\<close>

definition sma_index :: "yval list \<Rightarrow> sma_params \<Rightarrow> nat option" where
  "sma_index yVal params =
     (if yVal \<noteq> [] \<and> isArray (yVal ! 0)
      then Some (case index params of None \<Rightarrow> 0 | Some k \<Rightarrow> k)
      else None)"

text \<open>
  The methods of \<open>H.seriesTypes.ema.prototype\<close> that the three indicators call are not
  among the sources; the indicators are modelled for any such methods.
  \<open>calculateEma(xVal, yVal, i, EMApercent, calEMA, index, SMA)\<close> returns a pair
  \<open>[x, y]\<close>; \<open>calEMA\<close> may be \<open>undefined\<close> (\<open>None\<close>), and the index \<open>-1\<close> is \<open>None\<close>.
  \<open>getValues\<close> returns \<open>false\<close> (\<open>None\<close>) or a result.  On the reads the indicators
  make (rows inside the array) they do not throw.
\<close>

record ema_prototype =
  calculateEma ::
    "jsnum list \<Rightarrow> yval list \<Rightarrow> nat \<Rightarrow> jsnum \<Rightarrow> jsnum option \<Rightarrow> nat option \<Rightarrow> jsnum \<Rightarrow> jsnum \<times> jsnum"
  accumulatePeriodPoints :: "nat \<Rightarrow> nat option \<Rightarrow> yval list \<Rightarrow> jsnum"
  getValues :: "yval list series \<Rightarrow> sma_params \<Rightarrow> jsnum list values_object option"

text \<open>
  \<open>getEMA(yVal, prevEMA, SMA, index, i, xVal)\<close> of DEMA and of TEMA.  No caller passes
  \<open>xVal\<close>, so \<open>xVal || []\<close> is the empty array; a missing \<open>i\<close> is 1 and a missing
  \<open>index\<close> is \<open>-1\<close>.  \<open>EMApercent\<close> is read from \<open>this.chart.series[0]\<close>, taken to be
  the linked series, on which \<open>getValues\<close> has just stored \<open>2 / (period + 1)\<close>.
\<close>

definition getEMA ::
  "ema_prototype \<Rightarrow> jsnum \<Rightarrow> yval list \<Rightarrow> jsnum option \<Rightarrow> jsnum \<Rightarrow> nat option \<Rightarrow> nat option \<Rightarrow>
   jsnum \<times> jsnum" where
  "getEMA E EMApercent yVal prevEMAv SMAv indexv i =
     calculateEma E [] yVal (case i of None \<Rightarrow> 1 | Some n \<Rightarrow> n) EMApercent prevEMAv indexv SMAv"

subsection \<open>\<open>DEMAIndicator.getValues\<close>\<close>

record dema_state =
  d_accumulatePeriodPoints :: jsnum
  d_SMA :: jsnum
  d_DEMA :: "jsnum list list"
  d_xDataDema :: "jsnum list"
  d_yDataDema :: "jsnum list"
  d_EMA :: jsnum
  d_prevEMA :: "jsnum option"
  d_prevEMAlevel2 :: "jsnum option"
  d_EMAvalues :: "jsnum list"

text \<open>The body of \<open>for (i = period; i < yValLen + 2; i++)\<close>.\<close>

definition dema_step ::
  "ema_prototype \<Rightarrow> jsnum \<Rightarrow> nat \<Rightarrow> nat option \<Rightarrow> jsnum list \<Rightarrow> yval list \<Rightarrow> nat \<Rightarrow>
   dema_state \<Rightarrow> dema_state" where
  "dema_step E pct p idx xVal yVal i s =
     (let yValLen = length yVal;
          s1 = (if i < yValLen + 1
                then (let e = snd (getEMA E pct yVal (d_prevEMA s) (d_SMA s) idx (Some i))
                      in s\<lparr>d_EMA := e, d_EMAvalues := d_EMAvalues s @ [e]\<rparr>)
                else s);
          s2 = s1\<lparr>d_prevEMA := Some (d_EMA s1)\<rparr>
      in if i < 2 * p
         then s2\<lparr>d_accumulatePeriodPoints := jadd (d_accumulatePeriodPoints s2) (d_EMA s2)\<rparr>
         else
           let s3 = (if i = 2 * p
                     then s2\<lparr>d_SMA := jdiv (d_accumulatePeriodPoints s2) (Num (real p))\<rparr>
                     else s2);
               ema = elemAtI (d_EMAvalues s3) (int i - int p - 1);
               EMAlevel2 = snd (getEMA E pct [Scalar ema] (d_prevEMAlevel2 s3) (d_SMA s3) None None);
               DEMAPoint = [elemAtI xVal (int i - 2),
                            correctFloat (jsub (jmul (Num 2) ema) EMAlevel2)]
           in s3\<lparr>d_EMA := ema,
                 d_DEMA := d_DEMA s3 @ [DEMAPoint],
                 d_xDataDema := d_xDataDema s3 @ [DEMAPoint ! 0],
                 d_yDataDema := d_yDataDema s3 @ [DEMAPoint ! 1],
                 d_prevEMAlevel2 := Some EMAlevel2\<rparr>)"

text \<open>
  \<open>getValues\<close> returns \<open>false\<close> when \<open>yValLen < 2 * period - 1\<close>; over the integers
  that is the same comparison as the truncated subtraction here, also for period 0.
\<close>

definition DEMA_getValues ::
  "ema_prototype \<Rightarrow> yval list series \<Rightarrow> sma_params \<Rightarrow> jsnum list values_object option" where
  "DEMA_getValues E series params =
     (let p = period params;
          xVal = xData series;
          yVal = yData series;
          yValLen = length yVal;
          pct = jdiv (Num 2) (Num (real p + 1))
      in if yValLen < 2 * p - 1 then None
         else
           let idx = sma_index yVal params;
               SMA0 = jdiv (accumulatePeriodPoints E p idx yVal) (Num (real p));
               s = fold (dema_step E pct p idx xVal yVal) [p..<yValLen + 2]
                     \<lparr>d_accumulatePeriodPoints = Num 0, d_SMA = SMA0, d_DEMA = [],
                        d_xDataDema = [], d_yDataDema = [], d_EMA = Num 0, d_prevEMA = None,
                        d_prevEMAlevel2 = None, d_EMAvalues = []\<rparr>
           in Some \<lparr>xData = d_xDataDema s, yData = d_yDataDema s, values' = d_DEMA s\<rparr>)"

subsection \<open>\<open>TEMAIndicator.getValues\<close>\<close>

text \<open>
  The fields of \<open>EMAlevels\<close> start out \<open>undefined\<close>.  \<open>level1\<close>, \<open>level2\<close> and
  \<open>level3\<close> are assigned before they are read (the first iteration has
  \<open>i = period < yValLen + 1\<close>), so their initial value is never used;
  \<open>prevLevel3\<close> is read while still \<open>undefined\<close>.
\<close>

record tema_state =
  t_accumulatePeriodPoints :: jsnum
  t_SMA :: jsnum
  t_TEMA :: "jsnum list list"
  t_xDataTema :: "jsnum list"
  t_yDataTema :: "jsnum list"
  t_prevEMA :: "jsnum option"
  t_prevEMAlevel2 :: "jsnum option"
  t_EMAvalues :: "jsnum list"
  t_EMAlevel2values :: "jsnum list"
  t_level1 :: jsnum
  t_level2 :: jsnum
  t_level3 :: jsnum
  t_prevLevel3 :: "jsnum option"

text \<open>\<open>getTemaPoint\<close>: \<open>[xVal[i - 3], correctFloat(3 * level1 - 3 * level2 + level3)]\<close>.\<close>

definition getTemaPoint :: "jsnum list \<Rightarrow> nat \<Rightarrow> tema_state \<Rightarrow> nat \<Rightarrow> jsnum list" where
  "getTemaPoint xVal tripledPeriod EMAlevels i =
     [elemAtI xVal (int i - 3),
      correctFloat (jadd (jsub (jmul (Num 3) (t_level1 EMAlevels))
                               (jmul (Num 3) (t_level2 EMAlevels)))
                         (t_level3 EMAlevels))]"

text \<open>The innermost branch of the loop body, taken when \<open>3 * period \<le> i\<close>.\<close>

definition tema_point_step ::
  "ema_prototype \<Rightarrow> jsnum \<Rightarrow> nat \<Rightarrow> jsnum list \<Rightarrow> yval list \<Rightarrow> nat \<Rightarrow> tema_state \<Rightarrow> tema_state" where
  "tema_point_step E pct p xVal yVal i s4 =
     (let yValLen = length yVal;
          s5 = (if i = 3 * p
                then s4\<lparr>t_SMA := jdiv (t_accumulatePeriodPoints s4) (Num (real p))\<rparr>
                else s4);
          s6 = (if i = yValLen + 1
                then (let l1 = elemAtI (t_EMAvalues s5) (int i - int p - 1);
                          l2 = snd (getEMA E pct [Scalar l1] (t_prevEMAlevel2 s5) (t_SMA s5)
                                      None None)
                      in s5\<lparr>t_level1 := l1, t_level2 := l2,
                            t_EMAlevel2values := t_EMAlevel2values s5 @ [l2]\<rparr>)
                else s5);
          s7 = s6\<lparr>t_level1 := elemAtI (t_EMAvalues s6) (int i - int p - 2),
                  t_level2 := elemAtI (t_EMAlevel2values s6) (int i - 2 * int p - 1)\<rparr>;
          s8 = s7\<lparr>t_level3 := snd (getEMA E pct [Scalar (t_level2 s7)] (t_prevLevel3 s7)
                                     (t_SMA s7) None None)\<rparr>;
          TEMAPoint = getTemaPoint xVal (3 * p) s8 i
      in s8\<lparr>t_TEMA := t_TEMA s8 @ [TEMAPoint],
            t_xDataTema := t_xDataTema s8 @ [TEMAPoint ! 0],
            t_yDataTema := t_yDataTema s8 @ [TEMAPoint ! 1],
            t_prevLevel3 := Some (t_level3 s8)\<rparr>)"

text \<open>The body of \<open>for (i = period; i < yValLen + 3; i++)\<close>.\<close>

definition tema_step ::
  "ema_prototype \<Rightarrow> jsnum \<Rightarrow> nat \<Rightarrow> nat option \<Rightarrow> jsnum list \<Rightarrow> yval list \<Rightarrow> nat \<Rightarrow>
   tema_state \<Rightarrow> tema_state" where
  "tema_step E pct p idx xVal yVal i s =
     (let yValLen = length yVal;
          s1 = (if i < yValLen + 1
                then (let e = snd (getEMA E pct yVal (t_prevEMA s) (t_SMA s) idx (Some i))
                      in s\<lparr>t_level1 := e, t_EMAvalues := t_EMAvalues s @ [e]\<rparr>)
                else s);
          s2 = s1\<lparr>t_prevEMA := Some (t_level1 s1)\<rparr>
      in if i < 2 * p
         then s2\<lparr>t_accumulatePeriodPoints := jadd (t_accumulatePeriodPoints s2) (t_level1 s2)\<rparr>
         else
           let s3 = (if i = 2 * p
                     then s2\<lparr>t_SMA := jdiv (t_accumulatePeriodPoints s2) (Num (real p)),
                             t_accumulatePeriodPoints := Num 0\<rparr>
                     else s2);
               l1 = elemAtI (t_EMAvalues s3) (int i - int p - 1);
               l2 = snd (getEMA E pct [Scalar l1] (t_prevEMAlevel2 s3) (t_SMA s3) None None);
               s4 = s3\<lparr>t_level1 := l1, t_level2 := l2,
                       t_EMAlevel2values := t_EMAlevel2values s3 @ [l2],
                       t_prevEMAlevel2 := Some l2\<rparr>
           in if i < 3 * p
              then s4\<lparr>t_accumulatePeriodPoints := jadd (t_accumulatePeriodPoints s4) (t_level2 s4)\<rparr>
              else tema_point_step E pct p xVal yVal i s4)"

definition TEMA_getValues ::
  "ema_prototype \<Rightarrow> yval list series \<Rightarrow> sma_params \<Rightarrow> jsnum list values_object option" where
  "TEMA_getValues E series params =
     (let p = period params;
          xVal = xData series;
          yVal = yData series;
          yValLen = length yVal;
          pct = jdiv (Num 2) (Num (real p + 1))
      in if yValLen < 3 * p - 2 then None
         else
           let idx = sma_index yVal params;
               SMA0 = jdiv (accumulatePeriodPoints E p idx yVal) (Num (real p));
               s = fold (tema_step E pct p idx xVal yVal) [p..<yValLen + 3]
                     \<lparr>t_accumulatePeriodPoints = Num 0, t_SMA = SMA0, t_TEMA = [],
                        t_xDataTema = [], t_yDataTema = [], t_prevEMA = None,
                        t_prevEMAlevel2 = None, t_EMAvalues = [], t_EMAlevel2values = [],
                        t_level1 = Undefined, t_level2 = Undefined, t_level3 = Undefined, t_prevLevel3 = None\<rparr>
           in Some \<lparr>xData = t_xDataTema s, yData = t_yDataTema s, values' = t_TEMA s\<rparr>)"

subsection \<open>\<open>PPOIndicator.getValues\<close>\<close>

record ppo_params =
  ppo_periods :: "nat list"
  ppo_index :: "nat option"

text \<open>
  The oscillator at \<open>i\<close>:
  \<open>correctFloat((SPE.yData[i + periodsOffset] - LPE.yData[i]) / LPE.yData[i] * 100)\<close>.
\<close>

definition ppo_oscillator :: "jsnum list \<Rightarrow> jsnum list \<Rightarrow> nat \<Rightarrow> nat \<Rightarrow> jsnum" where
  "ppo_oscillator SPEy LPEy periodsOffset i =
     correctFloat (jmul (jdiv (jsub (elemAt SPEy (i + periodsOffset)) (elemAt LPEy i))
                              (elemAt LPEy i))
                        (Num 100))"

text \<open>
  Wrong periods are reported through \<open>H.error\<close>, which logs, and \<open>false\<close> is returned;
  so it is when either EMA is \<open>false\<close>.
\<close>

definition PPO_getValues ::
  "ema_prototype \<Rightarrow> yval list series \<Rightarrow> ppo_params \<Rightarrow> jsnum list values_object option" where
  "PPO_getValues E series params =
     (let ps = ppo_periods params
      in if length ps \<noteq> 2 \<or> ps ! 1 \<le> ps ! 0 then None
         else
           (case (getValues E series \<lparr>period = ps ! 0, index = ppo_index params\<rparr>,
                  getValues E series \<lparr>period = ps ! 1, index = ppo_index params\<rparr>) of
              (Some SPE, Some LPE) \<Rightarrow>
                let periodsOffset = ps ! 1 - ps ! 0;
                    is = [0..<length (yData LPE)];
                    osc = ppo_oscillator (yData SPE) (yData LPE) periodsOffset
                in Some \<lparr>xData = map (\<lambda>i. elemAt (xData LPE) i) is,
                          yData = map osc is,
                          values' = map (\<lambda>i. [elemAt (xData LPE) i, osc i]) is\<rparr>
            | _ \<Rightarrow> None))"

subsection \<open>An EMA to run the cascade on\<close>

text \<open>
  Modelled from the spec: the EMA methods, for running the indicators above on concrete
  data.  The spec gives the EMA as exponential smoothing with factor
  \<open>2 / (period + 1)\<close>, seeded by the SMA of the first \<open>period\<close> points, with the
  recurrence \<open>EMA[i] = value[i] * factor + EMA[i-1] * (1 - factor)\<close>, and as failing on
  fewer than \<open>period\<close> points.  \<open>calculateEma\<close> is called with the 1-based position
  \<open>i\<close> of the value.
\<close>

definition yValue :: "nat option \<Rightarrow> yval list \<Rightarrow> nat \<Rightarrow> jsnum" where
  "yValue idx yVal i =
     (if i < length yVal
      then (case (idx, yVal ! i) of
              (None, Scalar v) \<Rightarrow> v
            | (Some k, Row cs) \<Rightarrow> elemAt cs k
            | _ \<Rightarrow> NaN)
      else NaN)"

definition spec_accumulatePeriodPoints :: "nat \<Rightarrow> nat option \<Rightarrow> yval list \<Rightarrow> jsnum" where
  "spec_accumulatePeriodPoints p idx yVal = foldl jadd (Num 0) (map (yValue idx yVal) [0..<p])"

definition spec_calculateEma ::
  "jsnum list \<Rightarrow> yval list \<Rightarrow> nat \<Rightarrow> jsnum \<Rightarrow> jsnum option \<Rightarrow> nat option \<Rightarrow> jsnum \<Rightarrow> jsnum \<times> jsnum" where
  "spec_calculateEma xVal yVal i EMApercent calEMA idx SMAv =
     (elemAtI xVal (int i - 1),
      case calEMA of
        None \<Rightarrow> SMAv
      | Some prev \<Rightarrow> jadd (jmul (yValue idx yVal (i - 1)) EMApercent)
                          (jmul prev (jsub (Num 1) EMApercent)))"

definition spec_ema_getValues :: "yval list series \<Rightarrow> sma_params \<Rightarrow> jsnum list values_object option" where
  "spec_ema_getValues series params =
     (let p = period params;
          xVal = xData series;
          yVal = yData series;
          idx = sma_index yVal params;
          pct = jdiv (Num 2) (Num (real p + 1));
          SMA0 = jdiv (spec_accumulatePeriodPoints p idx yVal) (Num (real p))
      in if length yVal < p then None
         else
           let pts = fold (\<lambda>i acc. acc @ [spec_calculateEma xVal yVal i pct
                                              (if acc = [] then None else Some (snd (last acc)))
                                              idx SMA0])
                          [p..<length yVal + 1] []
           in Some \<lparr>xData = map fst pts, yData = map snd pts,
                     values' = map (\<lambda>pt. [fst pt, snd pt]) pts\<rparr>)"

definition spec_EMA :: ema_prototype where
  "spec_EMA = \<lparr>calculateEma = spec_calculateEma,
               accumulatePeriodPoints = spec_accumulatePeriodPoints,
               getValues = spec_ema_getValues\<rparr>"

subsection \<open>Auxiliary notions for the results of the cascade\<close>

text \<open>
  \<open>pairs xs ys\<close> is the list of points \<open>[x, y]\<close>.  The invariants of the two loops:
  the three output arrays stay parallel, and every \<open>y\<close> pushed is a value of
  \<open>correctFloat\<close>.
\<close>

definition pairs :: "jsnum list \<Rightarrow> jsnum list \<Rightarrow> jsnum list list" where
  "pairs xs ys = map (\<lambda>(x, y). [x, y]) (zip xs ys)"

definition dema_inv :: "dema_state \<Rightarrow> bool" where
  "dema_inv s \<longleftrightarrow>
     length (d_xDataDema s) = length (d_yDataDema s) \<and>
     d_DEMA s = pairs (d_xDataDema s) (d_yDataDema s) \<and>
     set (d_yDataDema s) \<subseteq> range correctFloat"

definition tema_inv :: "tema_state \<Rightarrow> bool" where
  "tema_inv s \<longleftrightarrow>
     length (t_xDataTema s) = length (t_yDataTema s) \<and>
     t_TEMA s = pairs (t_xDataTema s) (t_yDataTema s) \<and>
     set (t_yDataTema s) \<subseteq> range correctFloat"

section \<open>3D shapes: \<open>face3d\<close>, \<open>cuboidPath\<close>, \<open>arc3dPath\<close>\<close>

text \<open>
  Coordinates are exact reals.  A projected point has \<open>x\<close> and \<open>y\<close>; a point of a
  shape has \<open>z\<close> as well.  A path is an array of command letters and numbers.
\<close>

record position =
  posX :: real
  posY :: real

record position3d = position +
  posZ :: real

datatype svg_item = Str string | Nbr real

text \<open>
  \<open>toLinePath\<close>: \<open>L x y\<close> for each point, the first letter replaced by \<open>M\<close> when there
  is a point, and a final \<open>Z\<close> when the path is closed and has a point.
\<close>

definition toLinePath :: "position list \<Rightarrow> bool \<Rightarrow> svg_item list" where
  "toLinePath points closedv =
     (let result = concat (map (\<lambda>point. [Str ''L'', Nbr (posX point), Nbr (posY point)]) points)
      in if points \<noteq> []
         then (let result1 = result[0 := Str ''M'']
               in if closedv then result1 @ [Str ''Z''] else result1)
         else result)"

text \<open>
  Modelled from the spec: \<open>H.shapeArea\<close>, which is not among the sources.  The spec
  calls it the signed area of the projected polygon; this is the usual sum over the
  edges, each vertex paired with its successor around the polygon.
\<close>

definition shapeArea :: "position list \<Rightarrow> real" where
  "shapeArea vertexes =
     sum_list (map (\<lambda>i. let j = (i + 1) mod length vertexes
                         in posX (vertexes ! i) * posY (vertexes ! j) -
                            posX (vertexes ! j) * posY (vertexes ! i))
                   [0..<length vertexes]) / 2"

text \<open>
  Modelled from the spec: \<open>H.perspective(points, chart, insidePlotArea)\<close>, which is not
  among the sources.  The spec has it apply the projection to every vertex; the
  projection of one point under the chart's rotation is the parameter \<open>proj\<close>.
\<close>

definition perspective ::
  "(bool \<Rightarrow> position3d \<Rightarrow> position) \<Rightarrow> position3d list \<Rightarrow> bool \<Rightarrow> position list" where
  "perspective proj points inside = map (proj inside) points"

subsection \<open>\<open>face3d\<close>\<close>

text \<open>
  The element keeps \<open>enabled\<close>, \<open>vertexes\<close> and \<open>insidePlotArea\<close>; of its attributes the
  path \<open>d\<close> and \<open>visibility\<close> are modelled.  In a hash, each of the three may be missing
  (\<open>undefined\<close> or \<open>null\<close>: not \<open>defined\<close>, and skipped by \<open>pick\<close>).
\<close>

record face3d_element =
  enabled :: bool
  vertexes :: "position3d list"
  insidePlotArea :: bool
  attr_d :: "svg_item list option"
  attr_visibility :: "string option"

record face3d_hash =
  hash_enabled :: "bool option"
  hash_vertexes :: "position3d list option"
  hash_insidePlotArea :: "bool option"

definition pick :: "'a option \<Rightarrow> 'a \<Rightarrow> 'a" where
  "pick a b = (case a of Some v \<Rightarrow> v | None \<Rightarrow> b)"

text \<open>The initial state set by \<open>face3d\<close> before the first \<open>attr\<close>.\<close>

definition face3d_new :: face3d_element where
  "face3d_new = \<lparr>enabled = True, vertexes = [], insidePlotArea = False,
                  attr_d = None, attr_visibility = None\<rparr>"

text \<open>
  \<open>ret.attr(hash)\<close> for an object \<open>hash\<close>.  When one of the three is defined, the
  element's fields are updated, the vertexes projected, and \<open>hash.d\<close> and
  \<open>hash.visibility\<close> set; \<open>SVGElement.prototype.attr\<close>, which is not among the sources,
  then stores the attributes of the hash.
\<close>

definition face3d_attr ::
  "(bool \<Rightarrow> position3d \<Rightarrow> position) \<Rightarrow> face3d_element \<Rightarrow> face3d_hash \<Rightarrow> face3d_element" where
  "face3d_attr proj this hash =
     (if hash_enabled hash \<noteq> None \<or> hash_vertexes hash \<noteq> None \<or>
         hash_insidePlotArea hash \<noteq> None
      then
        let this1 = this\<lparr>enabled := pick (hash_enabled hash) (enabled this),
                         vertexes := pick (hash_vertexes hash) (vertexes this),
                         insidePlotArea := pick (hash_insidePlotArea hash) (insidePlotArea this)\<rparr>;
            vertexes2d = perspective proj (vertexes this1) (insidePlotArea this1);
            path = toLinePath vertexes2d True;
            area = shapeArea vertexes2d;
            visibility = (if enabled this1 \<and> area > 0 then ''visible'' else ''hidden'')
        in this1\<lparr>attr_d := Some path, attr_visibility := Some visibility\<rparr>
      else this)"

text \<open>
  \<open>ret.animate(params)\<close>: the same computation; the visibility is set at once through
  \<open>this.attr('visibility', visibility)\<close> (a string argument, which \<open>ret.attr\<close> hands on
  to \<open>SVGElement.prototype.attr\<close>), and the path is the target \<open>params.d\<close> handed to
  \<open>SVGElement.prototype.animate\<close>, stored here as the path reached.
\<close>

definition face3d_animate ::
  "(bool \<Rightarrow> position3d \<Rightarrow> position) \<Rightarrow> face3d_element \<Rightarrow> face3d_hash \<Rightarrow> face3d_element" where
  "face3d_animate proj this params =
     (if hash_enabled params \<noteq> None \<or> hash_vertexes params \<noteq> None \<or>
         hash_insidePlotArea params \<noteq> None
      then
        let this1 = this\<lparr>enabled := pick (hash_enabled params) (enabled this),
                         vertexes := pick (hash_vertexes params) (vertexes this),
                         insidePlotArea := pick (hash_insidePlotArea params) (insidePlotArea this)\<rparr>;
            vertexes2d = perspective proj (vertexes this1) (insidePlotArea this1);
            path = toLinePath vertexes2d True;
            area = shapeArea vertexes2d;
            visibility = (if enabled this1 \<and> area > 0 then ''visible'' else ''hidden'');
            this2 = this1\<lparr>attr_visibility := Some visibility\<rparr>
        in this2\<lparr>attr_d := Some path\<rparr>
      else this)"

subsection \<open>\<open>cuboidPath\<close>\<close>

record cuboid_shapeArgs =
  sa_x :: real
  sa_y :: real
  sa_z :: real
  sa_height :: real
  sa_width :: real
  sa_depth :: real
  sa_insidePlotArea :: bool

text \<open>What \<open>cuboidPath\<close> reads of the chart: \<open>options3d.alpha\<close> and \<open>plotHeight\<close>.\<close>

record chart3d =
  options3d_alpha :: real
  plotHeight :: real

record cuboid_paths =
  front :: "svg_item list"
  top' :: "svg_item list"
  side :: "svg_item list"
  zIndexes_group :: int
  isFront :: int
  isTop :: int

text \<open>The 8 corners of the cube, in the order of \<open>pArr\<close>.\<close>

definition cuboid_corners :: "cuboid_shapeArgs \<Rightarrow> position3d list" where
  "cuboid_corners shapeArgs =
     (let x = sa_x shapeArgs; y = sa_y shapeArgs; z = sa_z shapeArgs;
          h = sa_height shapeArgs; w = sa_width shapeArgs; d = sa_depth shapeArgs
      in [\<lparr>posX = x, posY = y, posZ = z\<rparr>,
          \<lparr>posX = x + w, posY = y, posZ = z\<rparr>,
          \<lparr>posX = x + w, posY = y + h, posZ = z\<rparr>,
          \<lparr>posX = x, posY = y + h, posZ = z\<rparr>,
          \<lparr>posX = x, posY = y + h, posZ = z + d\<rparr>,
          \<lparr>posX = x + w, posY = y + h, posZ = z + d\<rparr>,
          \<lparr>posX = x + w, posY = y, posZ = z + d\<rparr>,
          \<lparr>posX = x, posY = y, posZ = z + d\<rparr>])"

text \<open>
  \<open>pickShape\<close>: the first path if its projected area is negative, else the second if
  its area is negative, else no path; the number tells which (0, 1, or -1 for none).
\<close>

definition pickShape :: "position list \<Rightarrow> nat list \<Rightarrow> nat list \<Rightarrow> position list \<times> int" where
  "pickShape pArr path1 path2 =
     (let path1' = map (\<lambda>i. pArr ! i) path1;
          path2' = map (\<lambda>i. pArr ! i) path2
      in if shapeArea path1' < 0 then (path1', 0)
         else if shapeArea path2' < 0 then (path2', 1)
         else ([], -1))"

text \<open>\<open>Math.round\<close>: the nearest integer, halves upwards.\<close>

definition Math_round :: "real \<Rightarrow> int" where
  "Math_round v = \<lfloor>v + 1 / 2\<rfloor>"

definition cuboidPath ::
  "(bool \<Rightarrow> position3d \<Rightarrow> position) \<Rightarrow> chart3d \<Rightarrow> cuboid_shapeArgs \<Rightarrow> cuboid_paths" where
  "cuboidPath proj chart shapeArgs =
     (let x = sa_x shapeArgs; y = sa_y shapeArgs; z = sa_z shapeArgs;
          alpha = options3d_alpha chart;
          incrementX = 10000; incrementY = 10; incrementZ = 100;
          pArr = perspective proj (cuboid_corners shapeArgs) (sa_insidePlotArea shapeArgs);
          shape1 = pickShape pArr [3, 2, 1, 0] [7, 6, 5, 4];
          path1 = fst shape1; isFrontv = snd shape1;
          shape2 = pickShape pArr [1, 6, 7, 0] [4, 5, 2, 3];
          path2 = fst shape2; isTopv = snd shape2;
          shape3 = pickShape pArr [1, 2, 5, 6] [0, 7, 4, 3];
          path3 = fst shape3; isRight = snd shape3;
          zIndex0 = (0::real);
          zIndex1 = (if isRight = 1 then zIndex0 + incrementX * (1000 - x)
                     else if isRight = 0 then zIndex0 + incrementX * x
                     else zIndex0);
          zIndex2 = zIndex1 + incrementY *
                      (if isTopv = 0 \<or>
                          (alpha \<ge> 0 \<and> alpha \<le> 180 \<or> alpha < 360 \<and> alpha > 357.5)
                       then plotHeight chart - y else 10 + y);
          zIndex3 = (if isFrontv = 1 then zIndex2 + incrementZ * z
                     else if isFrontv = 0 then zIndex2 + incrementZ * (1000 - z)
                     else zIndex2)
      in \<lparr>front = toLinePath path1 True,
          top' = toLinePath path2 True,
          side = toLinePath path3 True,
          zIndexes_group = Math_round zIndex3,
          isFront = isFrontv,
          isTop = isTopv\<rparr>)"

text \<open>
  The two faces of a pair as \<open>pickShape\<close> sees them, for stating what \<open>cuboidPath\<close>
  selects, and the projection that ignores depth (no rotation, view distance 0).
\<close>

definition cuboid_face ::
  "(bool \<Rightarrow> position3d \<Rightarrow> position) \<Rightarrow> cuboid_shapeArgs \<Rightarrow> nat list \<Rightarrow> position list" where
  "cuboid_face proj shapeArgs path =
     map (\<lambda>i. perspective proj (cuboid_corners shapeArgs) (sa_insidePlotArea shapeArgs) ! i) path"

definition orthographic :: "bool \<Rightarrow> position3d \<Rightarrow> position" where
  "orthographic inside point = \<lparr>posX = posX point, posY = posY point\<rparr>"

subsection \<open>\<open>arc3dPath\<close>: the z-indexes\<close>

text \<open>
  \<open>Math.atan2\<close> tells the two zeros apart: \<open>Math.atan2(+0, -0)\<close> is \<open>\<pi>\<close> and
  \<open>Math.atan2(+0, +0)\<close> is 0.  Its arguments are therefore passed with their sign bit,
  which for a number other than zero says that it is negative.  \<open>signed_times a b\<close>
  is the product \<open>a * b\<close> of two numbers whose zeros are \<open>+0\<close>, as those of
  \<open>shapeArgs.depth || 0\<close> and of the sine of \<open>+0\<close> are: the sign of a product is
  the exclusive or of the signs of its factors, also when it is zero.  \<open>signed_neg\<close> is
  the unary minus.  Last, the remainder \<open>%\<close> of JavaScript, which truncates the
  quotient towards zero.
\<close>

definition signed_times :: "real \<Rightarrow> real \<Rightarrow> real \<times> bool" where
  "signed_times a b = (a * b, (a < 0) \<noteq> (b < 0))"

definition signed_neg :: "real \<times> bool \<Rightarrow> real \<times> bool" where
  "signed_neg v = (- fst v, \<not> snd v)"

definition Math_atan2 :: "real \<times> bool \<Rightarrow> real \<times> bool \<Rightarrow> real" where
  "Math_atan2 yv xv =
     (let y = fst yv; x = fst xv
      in if 0 < x then arctan (y / x)
         else if x < 0
              then (if 0 < y \<or> (y = 0 \<and> \<not> snd yv) then arctan (y / x) + pi
                    else arctan (y / x) - pi)
         else if 0 < y then pi / 2
         else if y < 0 then - pi / 2
         else if snd xv then (if snd yv then - pi else pi)
         else 0)"

definition js_rem :: "real \<Rightarrow> real \<Rightarrow> real" where
  "js_rem a b = a - b * of_int (if a / b \<ge> 0 then \<lfloor>a / b\<rfloor> else \<lceil>a / b\<rceil>)"

record arc_shapeArgs =
  arc_x :: real
  arc_y :: real
  arc_start :: real
  arc_end :: real
  arc_r :: real
  arc_innerR :: real
  arc_depth :: real
  arc_alpha :: real
  arc_beta :: real

record arc3d_zIndexes =
  zTop :: real
  zOut :: real
  zInn :: real
  zSide1 :: real
  zSide2 :: real

text \<open>The local function \<open>toZeroPIRange\<close>.\<close>

definition toZeroPIRange :: "real \<Rightarrow> real" where
  "toZeroPIRange angle =
     (let angle1 = js_rem angle (2 * pi)
      in if angle1 > pi then 2 * pi - angle1 else angle1)"

text \<open>
  The corrected angles \<open>(angleMid, angleStart, angleEnd)\<close> after \<open>toZeroPIRange\<close>; the
  end angle is \<open>shapeArgs.end - 0.00001\<close>, \<open>d\<close> is \<open>shapeArgs.depth || 0\<close>, and the
  correction is the angle of the offset between top and bottom.
\<close>

definition arc_angles :: "arc_shapeArgs \<Rightarrow> real \<times> real \<times> real" where
  "arc_angles shapeArgs =
     (let start = arc_start shapeArgs;
          endv = arc_end shapeArgs - 0.00001;
          d = arc_depth shapeArgs;
          dx = signed_times d (sin (arc_beta shapeArgs));
          dy = signed_times d (sin (arc_alpha shapeArgs));
          angleCorr = Math_atan2 dy (signed_neg dx);
          angleEnd = \<bar>endv + angleCorr\<bar>;
          angleStart = \<bar>start + angleCorr\<bar>;
          angleMid = \<bar>(start + endv) / 2 + angleCorr\<bar>
      in (toZeroPIRange angleMid, toZeroPIRange angleStart, toZeroPIRange angleEnd))"

text \<open>
  The z-indexes returned by \<open>arc3dPath\<close>.  The five paths it returns with them
  (\<open>top\<close>, \<open>out\<close>, \<open>inn\<close>, \<open>side1\<close>, \<open>side2\<close>) do not enter the z-indexes and are not
  modelled.
\<close>

definition arc3dPath :: "arc_shapeArgs \<Rightarrow> arc3d_zIndexes" where
  "arc3dPath shapeArgs =
     (case arc_angles shapeArgs of (angleMid, angleStart, angleEnd) \<Rightarrow>
        let incPrecision = 100000;
            a1 = angleMid * incPrecision;
            a2 = angleStart * incPrecision;
            a3 = angleEnd * incPrecision
        in \<lparr>zTop = pi * incPrecision + 1,
            zOut = max (max a1 a2) a3,
            zInn = max (max a1 a2) a3,
            zSide1 = a3 * 0.99,
            zSide2 = a2 * 0.99\<rparr>)"

section \<open>Grid axis: \<open>isOuterAxis\<close> and the cell of a tick\<close>

subsection \<open>\<open>Axis.prototype.isOuterAxis\<close>\<close>

text \<open>
  Axes are objects compared by identity (\<open>otherAxis === parentAxis\<close>), and a column
  axis and its parent refer to each other.  So an axis is an address, and the store
  gives what \<open>isOuterAxis\<close> reads of the object there: its side, whether
  \<open>options.isInternal\<close> is set, its \<open>columnIndex\<close> (\<open>undefined\<close> or a number), its
  \<open>columns\<close> (\<open>undefined\<close> or an array of axes) and its \<open>linkedParent\<close>.
\<close>

record axis_object =
  side_of :: nat
  isInternal :: bool
  columnIndex :: "nat option"
  columns :: "nat list option"
  linkedParent :: "nat option"

type_synonym axis_store = "nat \<Rightarrow> axis_object"

definition axisSide_left :: nat where "axisSide_left = 3"

text \<open>
  \<open>axis.linkedParent && axis.linkedParent.columns || axis.columns\<close>; an array, even an
  empty one, is truthy.
\<close>

definition outer_columns :: "axis_store \<Rightarrow> nat \<Rightarrow> nat list option" where
  "outer_columns store axis =
     (case linkedParent (store axis) of
        None \<Rightarrow> columns (store axis)
      | Some parent \<Rightarrow>
          (case columns (store parent) of
             Some cs \<Rightarrow> Some cs
           | None \<Rightarrow> columns (store axis)))"

text \<open>\<open>columnIndex ? axis.linkedParent : axis\<close>; the index 0 and \<open>undefined\<close> are falsy.\<close>

definition outer_parentAxis :: "axis_store \<Rightarrow> nat \<Rightarrow> nat option" where
  "outer_parentAxis store axis =
     (case columnIndex (store axis) of
        None \<Rightarrow> Some axis
      | Some k \<Rightarrow> if k = 0 then Some axis else linkedParent (store axis))"

text \<open>The test of the loop body, and whether the axis at hand is \<open>parentAxis\<close>.\<close>

definition same_side_external :: "axis_store \<Rightarrow> nat \<Rightarrow> nat \<Rightarrow> bool" where
  "same_side_external store axis otherAxis \<longleftrightarrow>
     side_of (store otherAxis) = side_of (store axis) \<and> \<not> isInternal (store otherAxis)"

text \<open>
  The callback of \<open>chart[axis.coll].forEach\<close>, on the state \<open>(thisIndex, lastIndex)\<close>.
\<close>

definition outer_step ::
  "axis_store \<Rightarrow> nat \<Rightarrow> nat list \<Rightarrow> nat \<Rightarrow> int \<times> int \<Rightarrow> int \<times> int" where
  "outer_step store axis coll i st =
     (case st of (thisIndex, lastIndex) \<Rightarrow>
        let otherAxis = coll ! i
        in if same_side_external store axis otherAxis
           then (if Some otherAxis = outer_parentAxis store axis then int i else thisIndex, int i)
           else (thisIndex, lastIndex))"

text \<open>
  \<open>isOuterAxis\<close> for the axis at address \<open>axis\<close>, with \<open>coll\<close> the array
  \<open>chart[axis.coll]\<close>.  \<open>thisIndex\<close> starts at \<open>-1\<close> and \<open>lastIndex\<close> at 0.  The second
  conjunct is evaluated only when the first holds; with a numeric \<open>columnIndex\<close> and no
  \<open>columns\<close> at all, reading the length throws.
\<close>

definition isOuterAxis :: "axis_store \<Rightarrow> nat list \<Rightarrow> nat \<Rightarrow> error + bool" where
  "isOuterAxis store coll axis =
     (case fold (outer_step store axis coll) [0..<length coll] (- 1, 0) of
        (thisIndex, lastIndex) \<Rightarrow>
          if lastIndex = thisIndex
          then (case columnIndex (store axis) of
                  None \<Rightarrow> Inr True
                | Some k \<Rightarrow>
                    (case outer_columns store axis of
                       None \<Rightarrow> Inl TypeError
                     | Some cs \<Rightarrow> Inr (length cs = k)))
          else Inr False)"

text \<open>
  For stating the result: the axis at index \<open>i\<close> of the collection is \<open>parentAxis\<close>, is
  on the side of the axis and not internal, and no such axis has a higher index.
\<close>

definition highest_on_side :: "axis_store \<Rightarrow> nat list \<Rightarrow> nat \<Rightarrow> nat \<Rightarrow> bool" where
  "highest_on_side store coll axis i \<longleftrightarrow>
     i < length coll \<and> same_side_external store axis (coll ! i) \<and>
     Some (coll ! i) = outer_parentAxis store axis \<and>
     (\<forall>j < length coll. same_side_external store axis (coll ! j) \<longrightarrow> j \<le> i)"

subsection \<open>The cell of a tick: the handler of \<open>afterGetLabelPosition\<close>\<close>










section \<open>Properties of binary64 rounding\<close>

lemma round_even_of_int: "round_even (of_int n) = n"
  by (simp add: round_even_def)

lemma round_even_cases: "round_even t = \<lfloor>t\<rfloor> \<or> round_even t = \<lfloor>t\<rfloor> + 1"
  by (simp add: round_even_def Let_def)

lemma round_even_mono:
  assumes "t \<le> s"
  shows "round_even t \<le> round_even s"
proof (cases "\<lfloor>t\<rfloor> = \<lfloor>s\<rfloor>")
  case True
  with assms show ?thesis
    by (simp add: round_even_def Let_def)
next
  case False
  with assms have "\<lfloor>t\<rfloor> + 1 \<le> \<lfloor>s\<rfloor>"
    using floor_mono [of t s] by linarith
  moreover have "round_even t \<le> \<lfloor>t\<rfloor> + 1" "\<lfloor>s\<rfloor> \<le> round_even s"
    using round_even_cases [of t] round_even_cases [of s] by linarith+
  ultimately show ?thesis by linarith
qed

lemma round_even_minus: "round_even (- t) = - round_even t"
proof (cases "t \<in> \<int>")
  case True
  then obtain n where "t = of_int n" by (auto elim: Ints_cases)
  then show ?thesis
    using round_even_of_int [of "- n"] round_even_of_int [of n] by simp
next
  case False
  then have "t \<noteq> of_int \<lfloor>t\<rfloor>"
    by (metis Ints_of_int)
  then have b: "of_int \<lfloor>t\<rfloor> < t" "t < of_int \<lfloor>t\<rfloor> + 1"
    using of_int_floor_le [of t] by linarith+
  have fl: "\<lfloor>- t\<rfloor> = - \<lfloor>t\<rfloor> - 1"
  proof (rule floor_unique)
    have c: "of_int (- \<lfloor>t\<rfloor> - 1) = - of_int \<lfloor>t\<rfloor> - (1::real)" by simp
    show "of_int (- \<lfloor>t\<rfloor> - 1) \<le> - t" unfolding c using b(2) by linarith
    show "- t < of_int (- \<lfloor>t\<rfloor> - 1) + 1" unfolding c using b(1) by linarith
  qed
  have ev: "even (- \<lfloor>t\<rfloor> - 1) \<longleftrightarrow> \<not> even \<lfloor>t\<rfloor>"
    by simp
  show ?thesis
    unfolding round_even_def Let_def fl ev by (auto simp: field_simps)
qed

lemma floor_log2_bounds:
  assumes "0 < x"
  shows "2 powi \<lfloor>log 2 x\<rfloor> \<le> x" and "x < 2 powi (\<lfloor>log 2 x\<rfloor> + 1)"
proof -
  have a: "(2::real) powr real_of_int \<lfloor>log 2 x\<rfloor> = 2 powi \<lfloor>log 2 x\<rfloor>"
    by (rule powr_real_of_int') simp_all
  have b: "(2::real) powr real_of_int (\<lfloor>log 2 x\<rfloor> + 1) = 2 powi (\<lfloor>log 2 x\<rfloor> + 1)"
    by (rule powr_real_of_int') simp_all
  have "2 powr real_of_int \<lfloor>log 2 x\<rfloor> \<le> x \<and> x < 2 powr real_of_int (\<lfloor>log 2 x\<rfloor> + 1)"
    using floor_log_eq_powr_iff [of x 2 "\<lfloor>log 2 x\<rfloor>"] assms by fastforce
  then show "2 powi \<lfloor>log 2 x\<rfloor> \<le> x" and "x < 2 powi (\<lfloor>log 2 x\<rfloor> + 1)"
    unfolding a b by simp_all
qed

lemma floor_log2_eq:
  assumes "2 powi k \<le> x" and "x < 2 powi (k + 1)"
  shows "\<lfloor>log 2 x\<rfloor> = k"
proof -
  have "(0::real) < 2 powi k" by simp
  with assms(1) have "0 < x" by linarith
  have a: "(2::real) powr real_of_int k = 2 powi k"
    by (rule powr_real_of_int') simp_all
  have b: "(2::real) powr real_of_int (k + 1) = 2 powi (k + 1)"
    by (rule powr_real_of_int') simp_all
  have "2 powr real_of_int k \<le> x \<and> x < 2 powr real_of_int (k + 1)"
    unfolding a b using assms by simp
  then show ?thesis
    using floor_log_eq_powr_iff [of x 2 k] \<open>0 < x\<close> by fastforce
qed

lemma exponent_minus: "exponent (- x) = exponent x"
  by (simp add: exponent_def)

lemma exponent_ge: "- 1022 \<le> exponent x"
  by (simp add: exponent_def)

lemma exponent_upper:
  assumes "x \<noteq> 0"
  shows "\<bar>x\<bar> < 2 powi (exponent x + 1)"
proof -
  have "\<bar>x\<bar> < 2 powi (\<lfloor>log 2 \<bar>x\<bar>\<rfloor> + 1)"
    using floor_log2_bounds(2) [of "\<bar>x\<bar>"] assms by simp
  also have "\<dots> \<le> 2 powi (exponent x + 1)"
    by (rule power_int_increasing) (simp_all add: exponent_def)
  finally show ?thesis .
qed

lemma exponent_lower:
  assumes "x \<noteq> 0" and "- 1022 < exponent x"
  shows "2 powi exponent x \<le> \<bar>x\<bar>"
proof -
  have "exponent x = \<lfloor>log 2 \<bar>x\<bar>\<rfloor>"
    using assms(2) by (simp add: exponent_def max_def split: if_splits)
  then show ?thesis
    using floor_log2_bounds(1) [of "\<bar>x\<bar>"] assms(1) by simp
qed

lemma exponent_eq:
  assumes "2 powi e \<le> \<bar>x\<bar>" and "\<bar>x\<bar> < 2 powi (e + 1)" and "- 1022 \<le> e"
  shows "exponent x = e"
  using floor_log2_eq [OF assms(1,2)] assms(3) by (simp add: exponent_def)

lemma exponent_subnormal:
  assumes "x \<noteq> 0" and "\<bar>x\<bar> < 2 powi (- 1022)"
  shows "exponent x = - 1022"
proof -
  have "\<lfloor>log 2 \<bar>x\<bar>\<rfloor> < - 1022"
  proof (rule ccontr)
    assume "\<not> \<lfloor>log 2 \<bar>x\<bar>\<rfloor> < - 1022"
    then have "(2::real) powi (- 1022) \<le> 2 powi \<lfloor>log 2 \<bar>x\<bar>\<rfloor>"
      by (intro power_int_increasing) simp_all
    also have "\<dots> \<le> \<bar>x\<bar>"
      using floor_log2_bounds(1) [of "\<bar>x\<bar>"] assms(1) by simp
    finally show False using assms(2) by simp
  qed
  then show ?thesis by (simp add: exponent_def)
qed

lemma exponent_mono:
  assumes "0 < x" and "x \<le> y"
  shows "exponent x \<le> exponent y"
proof -
  have "log 2 \<bar>x\<bar> \<le> log 2 \<bar>y\<bar>"
    using assms by simp
  then have "\<lfloor>log 2 \<bar>x\<bar>\<rfloor> \<le> \<lfloor>log 2 \<bar>y\<bar>\<rfloor>"
    by (rule floor_mono)
  then show ?thesis by (simp add: exponent_def)
qed

lemma ulp_pos: "0 < ulp x"
  by (simp add: ulp_def)

lemma ulp_minus: "ulp (- x) = ulp x"
  by (simp add: ulp_def exponent_minus)

lemma rnd_minus: "rnd (- x) = - rnd x"
  by (simp add: rnd_def ulp_minus round_even_minus)

lemma rnd_nonneg:
  assumes "0 \<le> x"
  shows "0 \<le> rnd x"
proof -
  have "0 \<le> x / ulp x"
    using assms ulp_pos [of x] by simp
  then have "round_even (of_int 0) \<le> round_even (x / ulp x)"
    by (intro round_even_mono) simp
  then have "0 \<le> round_even (x / ulp x)"
    by (simp only: round_even_of_int)
  then show ?thesis
    using ulp_pos [of x] by (simp add: rnd_def)
qed

lemma two_powi_split: "(2::real) powi (e + 1) = 2 ^ 53 * 2 powi (e - 52)"
proof -
  have "(2::real) powi (e + 1) = 2 powi (53 + (e - 52))"
    by (rule arg_cong [of _ _ "power_int 2"]) simp
  also have "\<dots> = 2 powi 53 * 2 powi (e - 52)"
    by (rule power_int_add) simp
  finally show ?thesis by simp
qed

lemma two_powi_split': "(2::real) powi e = 2 ^ 52 * 2 powi (e - 52)"
proof -
  have "(2::real) powi e = 2 powi (52 + (e - 52))"
    by (rule arg_cong [of _ _ "power_int 2"]) simp
  also have "\<dots> = 2 powi 52 * 2 powi (e - 52)"
    by (rule power_int_add) simp
  finally show ?thesis by simp
qed

lemma rnd_upper:
  assumes "0 < x"
  shows "rnd x \<le> 2 powi (exponent x + 1)"
proof -
  have "x < 2 ^ 53 * ulp x"
    using exponent_upper [of x] assms by (simp add: two_powi_split ulp_def)
  then have "x / ulp x \<le> of_int (2 ^ 53)"
    using ulp_pos [of x] by (simp add: field_simps)
  then have "round_even (x / ulp x) \<le> round_even (of_int (2 ^ 53))"
    by (rule round_even_mono)
  then have "round_even (x / ulp x) \<le> 2 ^ 53"
    by (simp only: round_even_of_int)
  then have "real_of_int (round_even (x / ulp x)) \<le> 2 ^ 53"
    by (metis of_int_le_iff of_int_numeral of_int_power)
  then have "real_of_int (round_even (x / ulp x)) * ulp x \<le> 2 ^ 53 * ulp x"
    using ulp_pos [of x] by (intro mult_right_mono) simp_all
  then show ?thesis
    using assms by (simp add: rnd_def two_powi_split ulp_def)
qed

lemma rnd_lower:
  assumes "0 < x" and "- 1022 < exponent x"
  shows "2 powi exponent x \<le> rnd x"
proof -
  have "2 ^ 52 * ulp x \<le> x"
    using exponent_lower [of x] assms two_powi_split' [of "exponent x"] by (simp add: ulp_def)
  then have "of_int (2 ^ 52) \<le> x / ulp x"
    using ulp_pos [of x] by (simp add: field_simps)
  then have "round_even (of_int (2 ^ 52)) \<le> round_even (x / ulp x)"
    by (rule round_even_mono)
  then have "2 ^ 52 \<le> round_even (x / ulp x)"
    by (simp only: round_even_of_int)
  then have "2 ^ 52 \<le> real_of_int (round_even (x / ulp x))"
    by (metis of_int_le_iff of_int_numeral of_int_power)
  then have "2 ^ 52 * ulp x \<le> real_of_int (round_even (x / ulp x)) * ulp x"
    using ulp_pos [of x] by (intro mult_right_mono) simp_all
  then show ?thesis
    using assms two_powi_split' [of "exponent x"] by (simp add: rnd_def ulp_def)
qed

lemma rnd_mono_pos:
  assumes "0 < x" and "x \<le> y"
  shows "rnd x \<le> rnd y"
proof (cases "exponent x = exponent y")
  case True
  then have u: "ulp y = ulp x" by (simp add: ulp_def)
  have "x / ulp x \<le> y / ulp x"
    using assms(2) ulp_pos [of x] by (simp add: divide_right_mono)
  then have "round_even (x / ulp x) \<le> round_even (y / ulp x)"
    by (rule round_even_mono)
  then have "real_of_int (round_even (x / ulp x)) * ulp x \<le> real_of_int (round_even (y / ulp x)) * ulp x"
    using ulp_pos [of x] by (intro mult_right_mono) simp_all
  then show ?thesis
    using assms by (simp add: rnd_def u)
next
  case False
  with exponent_mono [OF assms] have lt: "exponent x < exponent y" by simp
  have "rnd x \<le> 2 powi (exponent x + 1)"
    by (rule rnd_upper [OF assms(1)])
  also have "\<dots> \<le> 2 powi exponent y"
    using lt by (intro power_int_increasing) simp_all
  also have "\<dots> \<le> rnd y"
    using lt exponent_ge [of x] assms by (intro rnd_lower) simp_all
  finally show ?thesis .
qed

lemma rnd_mono:
  assumes "x \<le> y"
  shows "rnd x \<le> rnd y"
proof -
  consider "0 < x" | "x \<le> 0" "0 \<le> y" | "y < 0" by linarith
  then show ?thesis
  proof cases
    case 1
    then show ?thesis using assms by (rule rnd_mono_pos)
  next
    case 2
    have "0 \<le> rnd (- x)" using 2(1) by (intro rnd_nonneg) simp
    then have "rnd x \<le> 0" by (simp add: rnd_minus)
    also have "0 \<le> rnd y" using 2(2) by (rule rnd_nonneg)
    finally show ?thesis .
  next
    case 3
    have "rnd (- y) \<le> rnd (- x)"
      using 3 assms by (intro rnd_mono_pos) simp_all
    then show ?thesis by (simp add: rnd_minus)
  qed
qed

lemma rnd_zero: "rnd 0 = 0"
  by (simp add: rnd_def)

lemma rnd_binade:
  assumes "2 powi e \<le> \<bar>x\<bar>" and "\<bar>x\<bar> < 2 powi (e + 1)" and "- 1022 \<le> e"
  shows "rnd x = of_int (round_even (x / 2 powi (e - 52))) * 2 powi (e - 52)"
proof -
  have "(0::real) < 2 powi e" by simp
  with assms(1) have "x \<noteq> 0" by linarith
  then show ?thesis
    using exponent_eq [OF assms] by (simp add: rnd_def ulp_def)
qed

lemma rnd_dyadic:
  assumes "\<bar>m\<bar> < 2 ^ 53" and "- 1074 \<le> e"
  shows "rnd (of_int m * 2 powi e) = of_int m * 2 powi e"
proof (cases "m = 0")
  case True
  then show ?thesis by (simp add: rnd_def)
next
  case False
  define x :: real where "x = of_int m * 2 powi e"
  have nz: "x \<noteq> 0"
    using False by (simp add: x_def)
  have "\<bar>x\<bar> = of_int \<bar>m\<bar> * 2 powi e"
    by (simp add: x_def abs_mult)
  also have "\<dots> < 2 ^ 53 * 2 powi e"
  proof (rule mult_strict_right_mono)
    show "real_of_int \<bar>m\<bar> < 2 ^ 53"
      using assms(1) by (metis of_int_less_iff of_int_numeral of_int_power)
    show "(0::real) < 2 powi e" by simp
  qed
  also have "\<dots> = 2 powi (e + 53)"
    using power_int_add [of "2::real" e 53] by simp
  finally have up: "\<bar>x\<bar> < 2 powi (e + 53)" .
  have E: "exponent x \<le> e + 52"
  proof (rule ccontr)
    assume "\<not> exponent x \<le> e + 52"
    then have gt: "e + 53 \<le> exponent x" by simp
    then have "(2::real) powi (e + 53) \<le> 2 powi exponent x"
      by (intro power_int_increasing) simp_all
    also have "\<dots> \<le> \<bar>x\<bar>"
      using gt assms(2) by (intro exponent_lower [OF nz]) simp
    finally show False using up by simp
  qed
  define k where "k = nat (e + 52 - exponent x)"
  define u where "u = ulp x"
  have upos: "0 < u"
    by (simp add: u_def ulp_pos)
  have "2 powi e = 2 powi (int k + (exponent x - 52))"
    using E by (intro arg_cong [of _ _ "power_int 2"]) (simp add: k_def)
  also have "\<dots> = (2::real) powi int k * 2 powi (exponent x - 52)"
    by (rule power_int_add) simp
  finally have pw: "(2::real) powi e = 2 ^ k * u"
    by (simp add: ulp_def u_def)
  have xu: "x = of_int (m * 2 ^ k) * u"
    unfolding x_def pw by simp
  have "x / u = of_int (m * 2 ^ k)"
    unfolding xu using upos by simp
  then have "round_even (x / u) = m * 2 ^ k"
    by (simp only: round_even_of_int)
  then have "rnd x = of_int (m * 2 ^ k) * u"
    using nz by (simp add: rnd_def u_def)
  then have "rnd x = x"
    using xu by simp
  then show ?thesis
    unfolding x_def .
qed

lemma rnd_of_int:
  assumes "\<bar>n\<bar> \<le> 2 ^ 53"
  shows "rnd (of_int n) = of_int n"
proof (cases "\<bar>n\<bar> < 2 ^ 53")
  case True
  then show ?thesis
    using rnd_dyadic [of n 0] by simp
next
  case False
  with assms have "n = 2 ^ 53 \<or> n = - (2 ^ 53)" by linarith
  then show ?thesis
    using rnd_dyadic [of "2 ^ 52" 1] rnd_dyadic [of "- (2 ^ 52)" 1] by auto
qed

lemma is_f64_dyadic:
  assumes "\<bar>m\<bar> < 2 ^ 53" and "- 1074 \<le> e" and "e \<le> 971"
  shows "is_f64 (of_int m * 2 powi e)"
proof -
  have "\<bar>of_int m * 2 powi e\<bar> = of_int \<bar>m\<bar> * (2::real) powi e"
    by (simp add: abs_mult)
  also have "\<dots> < 2 powi 53 * 2 powi e"
  proof (rule mult_strict_right_mono)
    have "real_of_int \<bar>m\<bar> < 2 ^ 53"
      using assms(1) by (metis of_int_less_iff of_int_numeral of_int_power)
    then show "real_of_int \<bar>m\<bar> < 2 powi 53" by simp
    show "(0::real) < 2 powi e" by simp
  qed
  also have "\<dots> \<le> 2 powi 53 * 2 powi 971"
    using assms(3) by (intro mult_left_mono power_int_increasing) simp_all
  also have "\<dots> = 2 powi (53 + 971)"
    by (rule power_int_add [symmetric]) simp
  finally have "\<bar>of_int m * 2 powi e\<bar> < (2::real) powi 1024"
    by simp
  then have "\<bar>of_int m * 2 powi e\<bar> < (2::real) ^ 1024"
    by (simp only: power_int_numeral)
  then show ?thesis
    using rnd_dyadic [OF assms(1,2)] unfolding is_f64_def by blast
qed

lemma is_f64_of_int:
  assumes "\<bar>n\<bar> \<le> 2 ^ 53"
  shows "is_f64 (of_int n)"
proof -
  have "real_of_int \<bar>n\<bar> \<le> 2 ^ 53"
    using assms by (metis of_int_le_iff of_int_numeral of_int_power)
  also have "\<dots> < (2::real) ^ 1024"
    by (rule power_strict_increasing) simp_all
  finally have "\<bar>real_of_int n\<bar> < 2 ^ 1024"
    by simp
  then show ?thesis
    using rnd_of_int [OF assms] unfolding is_f64_def by blast
qed

lemma is_f64_Ints:
  assumes "x \<in> \<int>" and "\<bar>x\<bar> \<le> 2 ^ 53"
  shows "is_f64 x"
proof -
  from assms(1) obtain n where x: "x = of_int n"
    by (auto elim: Ints_cases)
  have "real_of_int \<bar>n\<bar> \<le> 2 ^ 53"
    using assms(2) by (simp add: x)
  then have "\<bar>n\<bar> \<le> 2 ^ 53"
    by (metis of_int_le_iff of_int_numeral of_int_power)
  then show ?thesis
    unfolding x by (rule is_f64_of_int)
qed

lemma is_f64_zero: "is_f64 0"
  using is_f64_of_int [of 0] by simp

lemma is_f64_minus: "is_f64 (- x) = is_f64 x"
  by (auto simp: is_f64_def rnd_minus)

lemma is_f64_grid:
  assumes "is_f64 x"
  shows "\<exists>k::int. x = of_int k * 2 powi (- 1074)"
proof (cases "x = 0")
  case True
  then show ?thesis by (intro exI [of _ 0]) simp
next
  case False
  define j where "j = nat (exponent x + 1022)"
  have "(2::real) powi (exponent x - 52) = 2 powi (int j + (- 1074))"
    using exponent_ge [of x] by (intro arg_cong [of _ _ "power_int 2"]) (simp add: j_def)
  also have "\<dots> = (2::real) powi int j * 2 powi (- 1074)"
    by (rule power_int_add) simp
  finally have u: "ulp x = 2 ^ j * 2 powi (- 1074)"
    by (simp add: ulp_def)
  have "x = of_int (round_even (x / ulp x)) * ulp x"
    using assms False by (simp add: is_f64_def rnd_def)
  then have "x = of_int (round_even (x / ulp x) * 2 ^ j) * 2 powi (- 1074)"
    unfolding u by simp
  then show ?thesis ..
qed

lemma rnd_diff_pos:
  assumes "is_f64 a" and "is_f64 b" and "a < b"
  shows "0 < rnd (b - a)"
proof -
  from is_f64_grid [OF assms(1)] obtain ka :: int where a: "a = of_int ka * 2 powi (- 1074)" ..
  from is_f64_grid [OF assms(2)] obtain kb :: int where b: "b = of_int kb * 2 powi (- 1074)" ..
  have "of_int ka * (2::real) powi (- 1074) < of_int kb * 2 powi (- 1074)"
    using assms(3) a b by simp
  then have "real_of_int ka < real_of_int kb"
    by (rule mult_right_less_imp_less) simp
  then have "1 \<le> kb - ka" by simp
  then have "(1::real) \<le> of_int (kb - ka)"
    by (metis of_int_1_le_iff)
  then have "1 * 2 powi (- 1074) \<le> real_of_int (kb - ka) * 2 powi (- 1074)"
    by (rule mult_right_mono) simp
  then have "2 powi (- 1074) \<le> b - a"
    by (simp add: a b algebra_simps)
  then have "rnd (2 powi (- 1074)) \<le> rnd (b - a)"
    by (rule rnd_mono)
  moreover have "rnd (2 powi (- 1074)) = 2 powi (- 1074)"
    using rnd_dyadic [of 1 "- 1074"] by simp
  moreover have "(0::real) < 2 powi (- 1074)"
    by simp
  ultimately show ?thesis by linarith
qed

section \<open>Arithmetic on finite numbers\<close>

lemma fl_exact:
  assumes "is_f64 x"
  shows "fl x = Num x"
proof -
  have "rnd x = x" and "\<not> 2 ^ 1024 \<le> \<bar>x\<bar>"
    using assms by (simp_all add: is_f64_def)
  then show ?thesis
    by (simp add: fl_def signed_zero_def)
qed

lemma fl_between:
  assumes "0 \<le> x" and "x \<le> c" and "is_f64 c"
  shows "\<exists>r. fl x = Num r \<and> 0 \<le> r \<and> r \<le> c"
proof -
  have c: "rnd c = c" "\<bar>c\<bar> < 2 ^ 1024"
    using assms(3) by (simp_all add: is_f64_def)
  have lo: "0 \<le> rnd x"
    using assms(1) by (rule rnd_nonneg)
  have hi: "rnd x \<le> c"
    using rnd_mono [OF assms(2)] c(1) by simp
  have "\<not> 2 ^ 1024 \<le> \<bar>rnd x\<bar>"
    using lo hi c(2) by linarith
  then have "fl x = Num (rnd x)"
    using assms(1) by (simp add: fl_def signed_zero_def Let_def)
  with lo hi show ?thesis by blast
qed

lemma jadd_Num: "jadd (Num u) (Num v) = (if u + v = 0 then Num 0 else fl (u + v))"
  by (simp add: jadd_def)

lemma jsub_Num: "jsub (Num u) (Num v) = (if u - v = 0 then Num 0 else fl (u - v))"
  by (simp add: jsub_def jneg_def jadd_def)

lemma jmul_Num:
  "jmul (Num u) (Num v) =
     (if u = 0 \<or> v = 0 then signed_zero ((u < 0) \<noteq> (v < 0)) else fl (u * v))"
  by (simp add: jmul_def is_zero_def)

lemma jdiv_Num:
  "jdiv (Num u) (Num v) =
     (if v = 0 then (if u = 0 then NaN else signed_inf ((u < 0) \<noteq> (v < 0)))
      else if u = 0 then signed_zero ((u < 0) \<noteq> (v < 0)) else fl (u / v))"
  by (simp add: jdiv_def is_zero_def)

lemma jadd_f64: "is_f64 (u + v) \<Longrightarrow> jadd (Num u) (Num v) = Num (u + v)"
  by (simp add: jadd_Num fl_exact)

lemma jsub_f64: "is_f64 (u - v) \<Longrightarrow> jsub (Num u) (Num v) = Num (u - v)"
  by (simp add: jsub_Num fl_exact)

lemma jmul_f64: "is_f64 (u * v) \<Longrightarrow> 0 \<le> u \<Longrightarrow> 0 \<le> v \<Longrightarrow> jmul (Num u) (Num v) = Num (u * v)"
  by (auto simp: jmul_Num fl_exact signed_zero_def)

lemma jdiv_f64: "is_f64 (u / v) \<Longrightarrow> 0 \<le> u \<Longrightarrow> 0 < v \<Longrightarrow> jdiv (Num u) (Num v) = Num (u / v)"
  by (auto simp: jdiv_Num fl_exact signed_zero_def)

lemma jdiv_fl: "0 < v \<Longrightarrow> 0 \<le> u \<Longrightarrow> jdiv (Num u) (Num v) = fl (u / v)"
  by (auto simp: jdiv_Num signed_zero_def fl_def rnd_zero)

section \<open>Properties of the loop combinator\<close>

lemma for_loop_append:
  "for_loop (xs @ ys) body s =
     (case for_loop xs body s of Inl e \<Rightarrow> Inl e | Inr s' \<Rightarrow> for_loop ys body s')"
  by (induction xs arbitrary: s) (auto split: sum.splits)

lemma for_loop_snoc:
  "for_loop xs body s = Inr s' \<Longrightarrow> for_loop (xs @ [i]) body s = body i s'"
  by (simp add: for_loop_append split: sum.splits)

section \<open>SMA: the running sum\<close>

lemma sma_accumulate_loop:
  assumes "\<forall>i < b. sma_read yVal params i = Inr (v i)"
  shows "for_loop [0..<b] (sma_accumulate yVal params) s = Inr (foldl jadd s (map v [0..<b]))"
  using assms
proof (induction b)
  case 0
  then show ?case by simp
next
  case (Suc b)
  have rd: "sma_read yVal params b = Inr (v b)"
    using Suc.prems by simp
  have upt: "[0..<Suc b] = [0..<b] @ [b]"
    by simp
  have "for_loop [0..<Suc b] (sma_accumulate yVal params) s =
        sma_accumulate yVal params b (foldl jadd s (map v [0..<b]))"
    unfolding upt using Suc by (intro for_loop_snoc) simp
  also have "\<dots> = Inr (jadd (foldl jadd s (map v [0..<b])) (v b))"
    by (simp add: sma_accumulate_def rd)
  also have "\<dots> = Inr (foldl jadd s (map v [0..<Suc b]))"
    by simp
  finally show ?case .
qed

lemma sma_step_eval:
  assumes "sma_read yVal params i = Inr a" and "sma_read yVal params (i - r) = Inr b"
  shows "sma_step yVal params r xVal i (s, V, X, Y) =
         Inr (jsub (jadd s a) b,
              V @ [[elemAt xVal i, jdiv (jadd s a) (Num (real (period params)))]],
              X @ [elemAt xVal i], Y @ [jdiv (jadd s a) (Num (real (period params)))])"
  using assms by (simp add: sma_step_def Let_def)

lemma sma_step_loop:
  assumes rd: "\<forall>i < n. sma_read yVal params i = Inr (v i)"
    and p: "0 < p" "p = period params"
  shows "p - 1 + m \<le> n \<Longrightarrow>
         for_loop [p - 1..<p - 1 + m] (sma_step yVal params (p - 1) xVal)
           (sma_sum v p 0, V, X, Y) =
         Inr (sma_sum v p m,
              V @ map (sma_point xVal v p) [0..<m],
              X @ map (\<lambda>j. sma_point xVal v p j ! 0) [0..<m],
              Y @ map (\<lambda>j. sma_point xVal v p j ! 1) [0..<m])"
proof (induction m)
  case 0
  then show ?case by simp
next
  case (Suc m)
  define q where "q = p - 1"
  have rd1: "sma_read yVal params (q + m) = Inr (v (q + m))"
    using rd Suc.prems by (simp add: q_def)
  have rd2: "sma_read yVal params (q + m - q) = Inr (v m)"
    using rd Suc.prems by (simp add: q_def)
  have upt: "[q..<q + Suc m] = [q..<q + m] @ [q + m]"
    by simp
  have IH: "for_loop [q..<q + m] (sma_step yVal params q xVal) (sma_sum v p 0, V, X, Y) =
         Inr (sma_sum v p m,
              V @ map (sma_point xVal v p) [0..<m],
              X @ map (\<lambda>j. sma_point xVal v p j ! 0) [0..<m],
              Y @ map (\<lambda>j. sma_point xVal v p j ! 1) [0..<m])"
    using Suc unfolding q_def by simp
  have "for_loop [q..<q + Suc m] (sma_step yVal params q xVal) (sma_sum v p 0, V, X, Y) =
        sma_step yVal params q xVal (q + m)
          (sma_sum v p m,
              V @ map (sma_point xVal v p) [0..<m],
              X @ map (\<lambda>j. sma_point xVal v p j ! 0) [0..<m],
              Y @ map (\<lambda>j. sma_point xVal v p j ! 1) [0..<m])"
    unfolding upt using IH by (rule for_loop_snoc)
  also have "\<dots> = Inr (jsub (jadd (sma_sum v p m) (v (q + m))) (v m),
              (V @ map (sma_point xVal v p) [0..<m]) @
                 [[elemAt xVal (q + m), jdiv (jadd (sma_sum v p m) (v (q + m))) (Num (real (period params)))]],
              (X @ map (\<lambda>j. sma_point xVal v p j ! 0) [0..<m]) @ [elemAt xVal (q + m)],
              (Y @ map (\<lambda>j. sma_point xVal v p j ! 1) [0..<m]) @
                 [jdiv (jadd (sma_sum v p m) (v (q + m))) (Num (real (period params)))])"
    by (rule sma_step_eval [OF rd1 rd2])
  also have "\<dots> = Inr (sma_sum v p (Suc m),
              V @ map (sma_point xVal v p) [0..<Suc m],
              X @ map (\<lambda>j. sma_point xVal v p j ! 0) [0..<Suc m],
              Y @ map (\<lambda>j. sma_point xVal v p j ! 1) [0..<Suc m])"
    by (simp add: sma_point_def q_def p(2))
  finally show ?case
    unfolding q_def .
qed

lemma SMA_getValues_closed_form:
  assumes rd: "\<forall>i < length (elements yVal). sma_read yVal params i = Inr (v i)"
    and p: "0 < period params"
    and len: "length xVal = length (elements yVal)"
    and enough: "period params \<le> length (elements yVal)"
  shows "SMA_getValues \<lparr>xData = xVal, yData = yVal\<rparr> params =
         Inr (Some \<lparr>xData = map (\<lambda>j. sma_point xVal v (period params) j ! 0)
                              [0..<length (elements yVal) - period params + 1],
                    yData = map (\<lambda>j. sma_point xVal v (period params) j ! 1)
                              [0..<length (elements yVal) - period params + 1],
                    values' = map (sma_point xVal v (period params))
                              [0..<length (elements yVal) - period params + 1]\<rparr>)"
proof -
  define q where "q = period params"
  define n where "n = length (elements yVal)"
  define m where "m = n - q + 1"
  have n: "q - 1 + m = n"
    using p enough by (simp add: q_def n_def m_def)
  have "\<forall>i < q - 1. sma_read yVal params i = Inr (v i)"
    using rd enough p by (simp add: q_def)
  then have acc: "for_loop [0..<q - 1] (sma_accumulate yVal params) (Num 0) =
             Inr (sma_sum v q 0)"
    by (simp add: sma_accumulate_loop)
  have main: "for_loop [q - 1..<q - 1 + m] (sma_step yVal params (q - 1) xVal)
                (sma_sum v q 0, [], [], []) =
              Inr (sma_sum v q m,
                   [] @ map (sma_point xVal v q) [0..<m],
                   [] @ map (\<lambda>j. sma_point xVal v q j ! 0) [0..<m],
                   [] @ map (\<lambda>j. sma_point xVal v q j ! 1) [0..<m])"
    by (rule sma_step_loop [where n = n]) (use rd p n in \<open>simp_all add: q_def n_def\<close>)
  have "\<not> length xVal < q"
    using len enough by (simp add: q_def)
  then have "SMA_getValues \<lparr>xData = xVal, yData = yVal\<rparr> params =
         Inr (Some \<lparr>xData = map (\<lambda>j. sma_point xVal v q j ! 0) [0..<m],
                    yData = map (\<lambda>j. sma_point xVal v q j ! 1) [0..<m],
                    values' = map (sma_point xVal v q) [0..<m]\<rparr>)"
    using acc main unfolding n
    by (simp add: SMA_getValues_def Let_def q_def [symmetric] n_def [symmetric])
  then show ?thesis
    unfolding m_def n_def q_def .
qed





lemma is_f64_half: "is_f64 (1 / 2)"
  using is_f64_dyadic [of 1 "- 1"] by simp





section \<open>Stochastic: the points returned\<close>

lemma rows_ydata_elements: "elements (rows_ydata rows) = map Row rows"
  by (cases rows) (simp_all add: rows_ydata_def)

lemma sma_read_rows:
  assumes "i < length rows"
  shows "sma_read (rows_ydata rows) \<lparr>period = p, index = None\<rparr> i = Inr (elemAt (rows ! i) 0)"
proof (cases rows)
  case Nil
  with assms show ?thesis by simp
next
  case (Cons first rest)
  have "Row first # map Row rest = map Row rows"
    by (simp add: Cons)
  then have "componentAt (Row first # map Row rest) i 0 = Inr (elemAt (rows ! i) 0)"
    using assms by (simp add: componentAt_def del: list.map)
  then show ?thesis
    by (simp add: Cons rows_ydata_def)
qed

lemma SMA_getValues_single_window:
  assumes p: "0 < p" and lx: "length xs = p" and lr: "length rows = p"
  shows "SMA_getValues \<lparr>xData = xs, yData = rows_ydata rows\<rparr> \<lparr>period = p, index = None\<rparr> =
         Inr (Some \<lparr>xData = [elemAt xs (p - 1)],
                    yData = [jmean (map (\<lambda>r. elemAt r 0) rows)],
                    values' = [[elemAt xs (p - 1), jmean (map (\<lambda>r. elemAt r 0) rows)]]\<rparr>)"
proof -
  define v where "v = (\<lambda>i. elemAt (rows ! i) 0)"
  let ?P = "\<lparr>period = p, index = None\<rparr>"
  have rd: "\<forall>i < length (elements (rows_ydata rows)). sma_read (rows_ydata rows) ?P i = Inr (v i)"
    by (simp add: rows_ydata_elements sma_read_rows v_def)
  have cf: "SMA_getValues \<lparr>xData = xs, yData = rows_ydata rows\<rparr> ?P =
         Inr (Some \<lparr>xData = map (\<lambda>j. sma_point xs v (period ?P) j ! 0)
                              [0..<length (elements (rows_ydata rows)) - period ?P + 1],
                    yData = map (\<lambda>j. sma_point xs v (period ?P) j ! 1)
                              [0..<length (elements (rows_ydata rows)) - period ?P + 1],
                    values' = map (sma_point xs v (period ?P))
                              [0..<length (elements (rows_ydata rows)) - period ?P + 1]\<rparr>)"
    by (rule SMA_getValues_closed_form [OF rd]) (use p lx lr in \<open>simp_all add: rows_ydata_elements\<close>)
  have upt: "[0..<p] = [0..<p - 1] @ [p - 1]"
    using p by (cases p) simp_all
  have "map (\<lambda>r. elemAt r 0) rows = map v [0..<p]"
    using lr by (intro nth_equalityI) (simp_all add: v_def)
  then have "foldl jadd (Num 0) (map (\<lambda>r. elemAt r 0) rows) =
             jadd (foldl jadd (Num 0) (map v [0..<p - 1])) (v (p - 1))"
    by (simp add: upt)
  then have pt: "sma_point xs v p 0 = [elemAt xs (p - 1), jmean (map (\<lambda>r. elemAt r 0) rows)]"
    using lr by (simp add: sma_point_def jmean_def)
  show ?thesis
    unfolding cf using lr pt by (simp add: rows_ydata_elements)
qed

lemma smoothedD_window:
  assumes d: "0 < d" and lx: "length xs = length ys" and ld: "d \<le> length ys"
  shows "smoothedD d xs ys = Inr (jmean (map (\<lambda>r. elemAt r 0) (slice_from_end d ys)))"
proof -
  have l1: "length (slice_from_end d xs) = d" and l2: "length (slice_from_end d ys) = d"
    using d lx ld by (simp_all add: slice_from_end_def)
  show ?thesis
    unfolding smoothedD_def SMA_getValues_single_window [OF d l1 l2]
    by (simp add: elemAt_def)
qed

lemma stochastic_loop:
  assumes k: "0 < k" and d: "0 < d"
    and K: "\<forall>i. k - 1 \<le> i \<and> i < N \<longrightarrow> percentK yVal k i = Inr (K i)"
  shows "k - 1 \<le> n \<Longrightarrow> n \<le> N \<Longrightarrow>
         for_loop [k - 1..<n] (stochastic_step k d xVal yVal) ([], [], [], Null) =
         Inr (map (\<lambda>i. [elemAt xVal i, K i, expectedD K k d i]) [k - 1..<n],
              map (elemAt xVal) [k - 1..<n],
              map (\<lambda>i. [K i, expectedD K k d i]) [k - 1..<n],
              if n \<le> k - 1 then Null else expectedD K k d (n - 1))"
proof (induction n)
  case 0
  then show ?case by simp
next
  case (Suc n)
  show ?case
  proof (cases "k - 1 \<le> n")
    case False
    with Suc.prems have "k - 1 = Suc n" by simp
    then show ?thesis by simp
  next
    case True
    let ?xs = "map (elemAt xVal) [k - 1..<n]"
    let ?ys = "map (\<lambda>i. [K i, expectedD K k d i]) [k - 1..<n]"
    let ?SO = "map (\<lambda>i. [elemAt xVal i, K i, expectedD K k d i]) [k - 1..<n]"
    let ?D = "if n \<le> k - 1 then Null else expectedD K k d (n - 1)"
    have upt: "[k - 1..<Suc n] = [k - 1..<n] @ [n]"
      using True by simp
    have Kn: "percentK yVal k n = Inr (K n)"
      using K True Suc.prems by simp
    have Dn: "(if (k - 1) + (d - 1) \<le> n
               then smoothedD d (?xs @ [elemAt xVal n]) (?ys @ [[K n, Null]]) else Inr ?D) =
              Inr (expectedD K k d n)"
    proof (cases "(k - 1) + (d - 1) \<le> n")
      case thr: True
      define L where "L = ?ys @ [[K n, Null]]"
      have len: "d \<le> length L"
        using thr d True by (simp add: L_def)
      have lenL: "length L - d = n + 1 - d - (k - 1)"
        using thr d True by (simp add: L_def)
      have firsts: "map (\<lambda>r. elemAt r 0) L = map K [k - 1..<n + 1]"
        using True by (simp add: L_def elemAt_def comp_def)
      have "map (\<lambda>r. elemAt r 0) (slice_from_end d L) =
            drop (length L - d) (map (\<lambda>r. elemAt r 0) L)"
        using d by (simp add: slice_from_end_def drop_map)
      also have "\<dots> = drop (n + 1 - d - (k - 1)) (map K [k - 1..<n + 1])"
        unfolding firsts lenL ..
      also have "\<dots> = map K [n + 1 - d..<n + 1]"
        using thr d True by (simp add: drop_map del: upt_Suc)
      finally have "smoothedD d (?xs @ [elemAt xVal n]) L =
                    Inr (jmean (map K [n + 1 - d..<n + 1]))"
        using smoothedD_window [OF d _ len, of "?xs @ [elemAt xVal n]"] by (simp add: L_def)
      then have "smoothedD d (?xs @ [elemAt xVal n]) (?ys @ [[K n, Null]]) =
                    Inr (jmean (map K [n + 1 - d..<n + 1]))"
        unfolding L_def .
      with thr show ?thesis
        by (simp add: expectedD_def)
    next
      case below: False
      then have "n < (k - 1) + (d - 1)" by linarith
      then have "expectedD K k d n = Null"
        unfolding expectedD_def by (rule if_P)
      moreover have "?D = Null"
      proof -
        have "n - 1 < (k - 1) + (d - 1)" using below by linarith
        then have "expectedD K k d (n - 1) = Null"
          unfolding expectedD_def by (rule if_P)
        then show ?thesis by simp
      qed
      ultimately show ?thesis
        using below by simp
    qed
    have "for_loop ([k - 1..<n] @ [n]) (stochastic_step k d xVal yVal) ([], [], [], Null) =
          stochastic_step k d xVal yVal n (?SO, ?xs, ?ys, ?D)"
      by (rule for_loop_snoc) (use True Suc.IH Suc.prems in simp)
    also have "\<dots> = Inr (?SO @ [[elemAt xVal n, K n, expectedD K k d n]],
                          ?xs @ [elemAt xVal n],
                          ?ys @ [[K n, expectedD K k d n]],
                          expectedD K k d n)"
      by (simp only: stochastic_step_def prod.case Let_def Kn Dn sum.case)
    finally show ?thesis
      unfolding upt using True by simp
  qed
qed

lemma Stochastic_getValues_closed_form:
  assumes k: "0 < k" and d: "0 < d" and n: "k \<le> length yVal"
    and row: "yVal ! 0 = Row cs" and four: "length cs = 4"
    and K: "\<forall>i. k - 1 \<le> i \<and> i < length yVal \<longrightarrow> percentK yVal k i = Inr (K i)"
  shows "Stochastic_getValues \<lparr>xData = xVal, yData = yVal\<rparr> \<lparr>periods = (k, d)\<rparr> =
         Inr (Some \<lparr>xData = map (elemAt xVal) [k - 1..<length yVal],
                    yData = map (\<lambda>i. [K i, expectedD K k d i]) [k - 1..<length yVal],
                    values' = map (\<lambda>i. [elemAt xVal i, K i, expectedD K k d i])
                              [k - 1..<length yVal]\<rparr>)"
proof -
  have ne: "yVal \<noteq> []"
    using k n by auto
  have loop: "for_loop [k - 1..<length yVal] (stochastic_step k d xVal yVal) ([], [], [], Null) =
         Inr (map (\<lambda>i. [elemAt xVal i, K i, expectedD K k d i]) [k - 1..<length yVal],
              map (elemAt xVal) [k - 1..<length yVal],
              map (\<lambda>i. [K i, expectedD K k d i]) [k - 1..<length yVal],
              if length yVal \<le> k - 1 then Null else expectedD K k d (length yVal - 1))"
    by (rule stochastic_loop [OF k d K]) (use n in simp_all)
  show ?thesis
    using k n ne row four loop
    by (simp add: Stochastic_getValues_def Let_def)
qed

lemma map_upt_shift:
  "map f [a + c..<b + c] = map (\<lambda>m. f (m + c)) [a..<b]"
  by (rule nth_equalityI) (simp_all add: add.commute add.left_commute)

lemma rowAt_isArray: "isArray y \<Longrightarrow> \<exists>c. rowAt y k = Inr c"
  by (cases y) simp_all

lemma extremes_from_rows:
  "\<forall>y \<in> set arr. isArray y \<Longrightarrow> \<exists>e. extremes_from arr a b prev = Inr e"
proof (induction arr arbitrary: prev)
  case Nil
  then show ?case by simp
next
  case (Cons y arr)
  from Cons.prems obtain cs where y: "y = Row cs"
    by (cases y) auto
  show ?case
    using Cons.IH [of "(jmin (fst prev) (elemAt cs a), jmax (snd prev) (elemAt cs b))"] Cons.prems
    by (simp add: y)
qed

lemma getArrayExtremes_rows:
  assumes "\<forall>y \<in> set arr. isArray y"
  shows "\<exists>e. getArrayExtremes arr a b = Inr e"
proof (cases arr)
  case Nil
  then show ?thesis by (simp add: getArrayExtremes_def)
next
  case (Cons y rest)
  from assms Cons obtain cs where y: "y = Row cs"
    by (cases y) auto
  show ?thesis
    using extremes_from_rows [of rest a b] assms
    by (simp add: getArrayExtremes_def Cons y)
qed

lemma percentK_rows:
  assumes "\<forall>y \<in> set yVal. isArray y" and "i < length yVal"
  shows "\<exists>K. percentK yVal k i = Inr K"
proof -
  have "set (slice (i + 1 - k) (i + 1) yVal) \<subseteq> set yVal"
    unfolding slice_def by (meson set_take_subset set_drop_subset subset_trans)
  with assms(1) have "\<forall>y \<in> set (slice (i + 1 - k) (i + 1) yVal). isArray y"
    by blast
  then obtain e where e: "getArrayExtremes (slice (i + 1 - k) (i + 1) yVal) 2 1 = Inr e"
    using getArrayExtremes_rows by blast
  have "isArray (yVal ! i)"
    using assms by simp
  then obtain c where c: "componentAt yVal i 3 = Inr c"
    using rowAt_isArray [of "yVal ! i" 3] assms(2) by (auto simp: componentAt_def)
  show ?thesis
    using e c by (simp add: percentK_def Let_def)
qed

lemma Stochastic_getValues_percentK:
  assumes "0 < k" and "0 < d" and "k \<le> length yVal"
    and "yVal ! 0 = Row cs" and "length cs = 4"
    and "\<forall>y \<in> set yVal. isArray y"
  shows "\<exists>r. Stochastic_getValues \<lparr>xData = xVal, yData = yVal\<rparr> \<lparr>periods = (k, d)\<rparr> =
               Inr (Some r) \<and>
             length (yData r) = length yVal - k + 1 \<and>
             (\<forall>j < length yVal - k + 1. percentK yVal k (k - 1 + j) = Inr (yData r ! j ! 0))"
proof -
  define K where "K = (\<lambda>i. projr (percentK yVal k i))"
  have K: "\<forall>i. k - 1 \<le> i \<and> i < length yVal \<longrightarrow> percentK yVal k i = Inr (K i)"
  proof (intro allI impI)
    fix i assume "k - 1 \<le> i \<and> i < length yVal"
    then obtain c where "percentK yVal k i = Inr c"
      using percentK_rows [OF assms(6)] by blast
    then show "percentK yVal k i = Inr (K i)"
      by (simp add: K_def)
  qed
  let ?r = "\<lparr>xData = map (elemAt xVal) [k - 1..<length yVal],
             yData = map (\<lambda>i. [K i, expectedD K k d i]) [k - 1..<length yVal],
             values' = map (\<lambda>i. [elemAt xVal i, K i, expectedD K k d i])
                              [k - 1..<length yVal]\<rparr>"
  have cf: "Stochastic_getValues \<lparr>xData = xVal, yData = yVal\<rparr> \<lparr>periods = (k, d)\<rparr> =
            Inr (Some ?r)"
    by (rule Stochastic_getValues_closed_form [OF assms(1-5) K])
  have cnt: "length yVal - (k - 1) = length yVal - k + 1"
    using assms(1,3) by simp
  have "percentK yVal k (k - 1 + j) = Inr (yData ?r ! j ! 0)" if "j < length yVal - k + 1" for j
  proof -
    have "k - 1 \<le> k - 1 + j \<and> k - 1 + j < length yVal"
      using that cnt assms(1,3) by linarith
    moreover have "yData ?r ! j = [K (k - 1 + j), expectedD K k d (k - 1 + j)]"
      using that cnt by simp
    ultimately show ?thesis
      using K by simp
  qed
  moreover have "length (yData ?r) = length yVal - k + 1"
    using cnt by simp
  ultimately show ?thesis
    using cf by blast
qed

text \<open>
  Claim C10.  For an accepted input of rows (at least \<open>periodK\<close> points, every one a
  row and the first of four components) and positive periods,
  \<open>StochasticIndicator.getValues\<close> returns exactly \<open>n - periodK + 1\<close> points, the
  \<open>j\<close>-th for the input index \<open>periodK - 1 + j\<close>, with the \<open>%K\<close> computed there.
  Its \<open>%D\<close> component is \<open>null\<close> for the first \<open>periodD - 1\<close> points; from the point
  at input index \<open>(periodK - 1) + (periodD - 1)\<close> on it is the simple moving average
  of the last \<open>periodD\<close> values of \<open>%K\<close> computed so far.
\<close>

theorem Stochastic_getValues_points:
  assumes "0 < periodK" and "0 < periodD" and "periodK \<le> length yVal"
    and "yVal ! 0 = Row cs" and "length cs = 4"
    and "\<forall>y \<in> set yVal. isArray y"
  shows "\<exists>r. Stochastic_getValues \<lparr>xData = xVal, yData = yVal\<rparr>
                \<lparr>periods = (periodK, periodD)\<rparr> = Inr (Some r) \<and>
             length (values' r) = length yVal - periodK + 1 \<and>
             length (xData r) = length yVal - periodK + 1 \<and>
             length (yData r) = length yVal - periodK + 1 \<and>
             (\<forall>j < length yVal - periodK + 1.
                xData r ! j = elemAt xVal (periodK - 1 + j) \<and>
                percentK yVal periodK (periodK - 1 + j) = Inr (yData r ! j ! 0) \<and>
                yData r ! j ! 1 =
                  (if j < periodD - 1 then Null
                   else jmean (map (\<lambda>m. yData r ! m ! 0) [j + 1 - periodD..<j + 1])) \<and>
                length (yData r ! j) = 2 \<and>
                values' r ! j = [xData r ! j, yData r ! j ! 0, yData r ! j ! 1])"
proof -
  define k where "k = periodK"
  define d where "d = periodD"
  define n where "n = length yVal"
  define K where "K = (\<lambda>i. projr (percentK yVal k i))"
  have K: "\<forall>i. k - 1 \<le> i \<and> i < length yVal \<longrightarrow> percentK yVal k i = Inr (K i)"
  proof (intro allI impI)
    fix i assume "k - 1 \<le> i \<and> i < length yVal"
    then obtain c where "percentK yVal k i = Inr c"
      using percentK_rows [OF assms(6)] by blast
    then show "percentK yVal k i = Inr (K i)"
      by (simp add: K_def)
  qed
  let ?r = "\<lparr>xData = map (elemAt xVal) [k - 1..<n],
             yData = map (\<lambda>i. [K i, expectedD K k d i]) [k - 1..<n],
             values' = map (\<lambda>i. [elemAt xVal i, K i, expectedD K k d i])
                              [k - 1..<n]\<rparr>"
  have cf: "Stochastic_getValues \<lparr>xData = xVal, yData = yVal\<rparr> \<lparr>periods = (k, d)\<rparr> =
            Inr (Some ?r)"
    unfolding n_def
    by (rule Stochastic_getValues_closed_form [OF _ _ _ assms(4,5) K])
       (use assms in \<open>simp_all add: k_def d_def\<close>)
  have k: "0 < k" and d: "0 < d" and kn: "k \<le> n"
    using assms by (simp_all add: k_def d_def n_def)
  have cnt: "n - (k - 1) = n - k + 1"
    using k kn by simp
  have D: "expectedD K k d (k - 1 + j) =
           (if j < d - 1 then Null
            else jmean (map (\<lambda>m. yData ?r ! m ! 0) [j + 1 - d..<j + 1]))"
    if j: "j < n - k + 1" for j
  proof (cases "j < d - 1")
    case True
    then have "k - 1 + j < (k - 1) + (d - 1)" by simp
    then have "expectedD K k d (k - 1 + j) = Null"
      unfolding expectedD_def by (rule if_P)
    with True show ?thesis by simp
  next
    case False
    then have "\<not> k - 1 + j < (k - 1) + (d - 1)" by simp
    then have "expectedD K k d (k - 1 + j) =
               jmean (map K [k - 1 + j + 1 - d..<k - 1 + j + 1])"
      unfolding expectedD_def by (rule if_not_P)
    moreover have "k - 1 + j + 1 - d = (j + 1 - d) + (k - 1)" "k - 1 + j + 1 = (j + 1) + (k - 1)"
      using False d by simp_all
    ultimately have e1: "expectedD K k d (k - 1 + j) =
               jmean (map (\<lambda>m. K (m + (k - 1))) [j + 1 - d..<j + 1])"
      by (simp only: map_upt_shift)
    have e2: "map (\<lambda>m. K (m + (k - 1))) [j + 1 - d..<j + 1] =
                   map (\<lambda>m. yData ?r ! m ! 0) [j + 1 - d..<j + 1]"
    proof (intro map_cong refl)
      fix m assume "m \<in> set [j + 1 - d..<j + 1]"
      then have "m \<le> j" by auto
      then have "m < n - (k - 1)" using j cnt by linarith
      then show "K (m + (k - 1)) = yData ?r ! m ! 0"
        by (simp add: add.commute)
    qed
    show ?thesis
      by (simp only: False if_False e1 e2)
  qed
  have "length (values' ?r) = n - k + 1 \<and> length (xData ?r) = n - k + 1 \<and>
        length (yData ?r) = n - k + 1 \<and>
        (\<forall>j < n - k + 1.
           xData ?r ! j = elemAt xVal (k - 1 + j) \<and>
           percentK yVal k (k - 1 + j) = Inr (yData ?r ! j ! 0) \<and>
           yData ?r ! j ! 1 =
             (if j < d - 1 then Null
              else jmean (map (\<lambda>m. yData ?r ! m ! 0) [j + 1 - d..<j + 1])) \<and>
           length (yData ?r ! j) = 2 \<and>
           values' ?r ! j = [xData ?r ! j, yData ?r ! j ! 0, yData ?r ! j ! 1])"
  proof (intro conjI allI impI)
    fix j assume j: "j < n - k + 1"
    have sel: "yData ?r ! j = [K (k - 1 + j), expectedD K k d (k - 1 + j)]"
      using j cnt by simp
    show "yData ?r ! j ! 1 =
             (if j < d - 1 then Null
              else jmean (map (\<lambda>m. yData ?r ! m ! 0) [j + 1 - d..<j + 1]))"
      unfolding sel using D [OF j] by simp
    have "k - 1 \<le> k - 1 + j \<and> k - 1 + j < length yVal"
      using j cnt k kn unfolding n_def by linarith
    then show "percentK yVal k (k - 1 + j) = Inr (yData ?r ! j ! 0)"
      unfolding sel using K by simp
    show "length (yData ?r ! j) = 2"
      unfolding sel by simp
    show "xData ?r ! j = elemAt xVal (k - 1 + j)"
      using j cnt by simp
    show "values' ?r ! j = [xData ?r ! j, yData ?r ! j ! 0, yData ?r ! j ! 1]"
      unfolding sel using j cnt by simp
  qed (use cnt in simp_all)
  with cf show ?thesis
    unfolding k_def d_def n_def by blast
qed

lemma is_f64_quarters: "is_f64 (1 / 4)" "is_f64 (3 / 4)" "is_f64 (125 / 2)"
  using is_f64_dyadic [of 1 "- 2"] is_f64_dyadic [of 3 "- 2"] is_f64_dyadic [of 125 "- 1"]
  by simp_all

theorem Stochastic_getValues_points_witness:
  "(0::nat) < 2 \<and> (0::nat) < 2 \<and>
   2 \<le> length (map bar_row [(1, 2, 0, 1), (2, 4, 0, 3), (3, 8, 0, 4)]) \<and>
   map bar_row [(1, 2, 0, 1), (2, 4, 0, 3), (3, 8, 0, 4)] ! 0 = Row [Num 1, Num 2, Num 0, Num 1] \<and>
   length [Num 1, Num 2, Num 0, Num 1] = 4 \<and>
   list_all isArray (map bar_row [(1, 2, 0, 1), (2, 4, 0, 3), (3, 8, 0, 4)]) \<and>
   (\<exists>r. Stochastic_getValues
          \<lparr>xData = [Num 10, Num 20, Num 30],
             yData = map bar_row [(1, 2, 0, 1), (2, 4, 0, 3), (3, 8, 0, 4)]\<rparr>
          \<lparr>periods = (2, 2)\<rparr> = Inr (Some r) \<and>
        length (yData r) = 2 \<and> xData r ! 0 = Num 20 \<and> xData r ! 1 = Num 30 \<and>
        yData r ! 0 = [Num 75, Null] \<and>
        yData r ! 1 = [Num 50, Num (125 / 2)]) \<and>
   Stochastic_getValues \<lparr>xData = [Num 0, Num 1],
                           yData = [Row [Num 0, Num 4, Num 0, Num 1], Scalar Null]\<rparr>
                          \<lparr>periods = (1, 1)\<rparr> = Inl TypeError"
proof -
  let ?Y = "map bar_row [(1, 2, 0, 1), (2, 4, 0, 3), (3, 8, 0, 4)]"
  have h1: "(0::nat) < 2" by simp
  have h3: "2 \<le> length ?Y" by simp
  have h4: "?Y ! 0 = Row [Num 1, Num 2, Num 0, Num 1]" by (simp add: bar_row_def)
  have h5: "length [Num 1, Num 2, Num 0, Num 1] = 4" by simp
  have h6: "\<forall>y \<in> set ?Y. isArray y" by (simp add: bar_row_def)
  obtain r where r: "Stochastic_getValues \<lparr>xData = [Num 10, Num 20, Num 30], yData = ?Y\<rparr>
                       \<lparr>periods = (2, 2)\<rparr> = Inr (Some r)"
      and len: "length (yData r) = length ?Y - 2 + 1"
      and pts: "\<forall>j < length ?Y - 2 + 1.
                  xData r ! j = elemAt [Num 10, Num 20, Num 30] (2 - 1 + j) \<and>
                  percentK ?Y 2 (2 - 1 + j) = Inr (yData r ! j ! 0) \<and>
                  yData r ! j ! 1 =
                    (if j < 2 - 1 then Null
                     else jmean (map (\<lambda>m. yData r ! m ! 0) [j + 1 - 2..<j + 1])) \<and>
                  length (yData r ! j) = 2 \<and>
                  values' r ! j = [xData r ! j, yData r ! j ! 0, yData r ! j ! 1]"
    using Stochastic_getValues_points [OF h1 h1 h3 h4 h5 h6, of "[Num 10, Num 20, Num 30]"]
    by blast
  have K1: "percentK ?Y 2 1 = Inr (Num 75)"
    by (simp add: percentK_def slice_def bar_row_def getArrayExtremes_def componentAt_def
        elemAt_def jmin_def jmax_def jless_def is_zero_def jsub_f64 jdiv_f64 jmul_f64
        is_f64_Ints is_f64_quarters)
  have K2: "percentK ?Y 2 2 = Inr (Num 50)"
    by (simp add: percentK_def slice_def bar_row_def getArrayExtremes_def componentAt_def
        elemAt_def jmin_def jmax_def jless_def is_zero_def jsub_f64 jdiv_f64 jmul_f64
        is_f64_Ints is_f64_half)
  have two: "length xs = 2 \<Longrightarrow> xs = [xs ! 0, xs ! 1]" for xs :: "jsnum list"
    by (cases xs; cases "tl xs") auto
  have p0: "yData r ! 0 ! 0 = Num 75" "yData r ! 0 ! 1 = Null" "length (yData r ! 0) = 2"
           "xData r ! 0 = Num 20"
    using pts [rule_format, of 0] K1 by (simp_all add: elemAt_def)
  have p1: "yData r ! 1 ! 0 = Num 50" "length (yData r ! 1) = 2" "xData r ! 1 = Num 30"
    using pts [rule_format, of 1] K2 by (simp_all add: elemAt_def numeral_2_eq_2)
  have "yData r ! 1 ! 1 = jmean [yData r ! 0 ! 0, yData r ! 1 ! 0]"
    using pts [rule_format, of 1] by (simp add: upt_rec)
  then have p2: "yData r ! 1 ! 1 = Num (125 / 2)"
    unfolding p0 p1 by (simp add: jmean_def jadd_f64 jdiv_f64 is_f64_Ints is_f64_quarters)
  have y0: "yData r ! 0 = [Num 75, Null]"
    using two [OF p0(3)] p0 by simp
  have y1: "yData r ! 1 = [Num 50, Num (125 / 2)]"
    using two [OF p1(2)] p1 p2 by simp
  have l: "length (yData r) = 2"
    using len by simp
  let ?Z = "[Row [Num 0, Num 4, Num 0, Num 1], Scalar Null]"
  have pk0: "percentK ?Z 1 0 = Inr (Num 25)"
    by (simp add: percentK_def slice_def getArrayExtremes_def componentAt_def
        elemAt_def jmin_def jmax_def jless_def is_zero_def jsub_f64 jdiv_f64 jmul_f64
        is_f64_Ints is_f64_quarters)
  have sD: "smoothedD 1 [Num 0] [[Num 25, Null]] = Inr (Num 25)"
    using smoothedD_window [of 1 "[Num 0]" "[[Num 25, Null]]"]
    by (simp add: slice_from_end_def jmean_def elemAt_def jadd_f64 jdiv_f64 is_f64_Ints)
  have s0: "stochastic_step 1 1 [Num 0, Num 1] ?Z 0 ([], [], [], Null) =
            Inr ([[Num 0, Num 25, Num 25]], [Num 0], [[Num 25, Num 25]], Num 25)"
    using pk0 sD by (simp add: stochastic_step_def elemAt_def)
  have pk1: "percentK ?Z 1 1 = Inl TypeError"
    by (simp add: percentK_def slice_def getArrayExtremes_def)
  have s1: "stochastic_step 1 1 [Num 0, Num 1] ?Z 1 st = Inl TypeError" for st
    using pk1 by (simp add: stochastic_step_def split: prod.splits)
  have loop: "for_loop [0, 1] (stochastic_step 1 1 [Num 0, Num 1] ?Z) ([], [], [], Null) =
              Inl TypeError"
    using s0 s1 by simp
  have throws: "Stochastic_getValues \<lparr>xData = [Num 0, Num 1], yData = ?Z\<rparr>
                          \<lparr>periods = (1, 1)\<rparr> = Inl TypeError"
    using loop by (simp add: Stochastic_getValues_def upt_rec)
  have "list_all isArray ?Y"
    by (simp add: bar_row_def)
  with r l p0 p1 y0 y1 h4 throws show ?thesis
    by auto
qed

section \<open>Stochastic: the range of \<open>%K\<close>\<close>

lemma rowAt_bar_row:
  "rowAt (bar_row b) (Suc 0) = Inr (Num (bar_high b))"
  "rowAt (bar_row b) 2 = Inr (Num (bar_low b))"
  "rowAt (bar_row b) 3 = Inr (Num (bar_close b))"
  by (cases b; simp add: bar_row_def bar_high_def bar_low_def bar_close_def elemAt_def)+

lemma jmin_Num: "jmin (Num u) (Num v) = Num (min u v)"
  by (auto simp: jmin_def jless_def is_zero_def)

lemma jmax_Num: "jmax (Num u) (Num v) = Num (max u v)"
  by (auto simp: jmax_def jless_def is_zero_def)

lemma extremes_from_bars:
  "extremes_from (map bar_row bs) 2 (Suc 0) (Num lo, Num hi) =
   Inr (Num (fold min (map bar_low bs) lo), Num (fold max (map bar_high bs) hi))"
  by (induction bs arbitrary: lo hi)
    (simp_all add: rowAt_bar_row jmin_Num jmax_Num min.commute max.commute)

lemma getArrayExtremes_bars:
  assumes "bs \<noteq> []"
  shows "getArrayExtremes (map bar_row bs) 2 (Suc 0) =
         Inr (Num (Min (bar_low ` set bs)), Num (Max (bar_high ` set bs)))"
proof -
  obtain b rest where bs: "bs = b # rest"
    using assms by (cases bs) auto
  have "Min (bar_low ` set bs) = fold min (map bar_low rest) (bar_low b)"
    using Min.set_eq_fold [of "bar_low b" "map bar_low rest"] by (simp add: bs)
  moreover have "Max (bar_high ` set bs) = fold max (map bar_high rest) (bar_high b)"
    using Max.set_eq_fold [of "bar_high b" "map bar_high rest"] by (simp add: bs)
  ultimately show ?thesis
    using extremes_from_bars [of rest "bar_low b" "bar_high b"]
    by (simp add: getArrayExtremes_def bs rowAt_bar_row jmin_Num jmax_Num)
qed

lemma percentK_bars:
  assumes k: "0 < k" and j: "j + k \<le> length bars"
  shows "percentK (map bar_row bars) k (k - 1 + j) =
         Inr (jmul (jdiv (jsub (Num (bar_close (bars ! (k - 1 + j))))
                               (Num (Min (bar_low ` set (take k (drop j bars))))))
                         (jsub (Num (Max (bar_high ` set (take k (drop j bars)))))
                               (Num (Min (bar_low ` set (take k (drop j bars)))))))
                   (Num 100))"
proof -
  define w where "w = take k (drop j bars)"
  have w_ne: "w \<noteq> []"
    using k j by (auto simp: w_def)
  have a: "k - 1 + j + 1 - k = j" and b: "k - 1 + j + 1 - j = k"
    using k by simp_all
  have win: "slice (k - 1 + j + 1 - k) (k - 1 + j + 1) (map bar_row bars) = map bar_row w"
    unfolding slice_def a b w_def by (simp add: take_map drop_map)
  have i: "k - 1 + j < length bars"
    using k j by simp
  have c: "componentAt (map bar_row bars) (k - 1 + j) 3 = Inr (Num (bar_close (bars ! (k - 1 + j))))"
    using i by (simp add: componentAt_def rowAt_bar_row)
  have e: "getArrayExtremes (map bar_row w) 2 1 =
           Inr (Num (Min (bar_low ` set w)), Num (Max (bar_high ` set w)))"
    using getArrayExtremes_bars [OF w_ne] by simp
  show ?thesis
    unfolding percentK_def win Let_def e c w_def [symmetric] by simp
qed

lemma is_f64_MAX_VALUE: "is_f64 MAX_VALUE"
proof -
  have "is_f64 (of_int (2 ^ 53 - 1) * 2 powi 971)"
    by (rule is_f64_dyadic) simp_all
  then show ?thesis
    by (simp add: MAX_VALUE_def)
qed

lemma is_f64_one_hundred: "is_f64 1" "is_f64 100"
  by (simp_all add: is_f64_Ints)

lemma percent_in_range:
  assumes lo: "is_f64 lo" and hi: "is_f64 hi" and lt: "lo < hi"
    and fin: "hi - lo \<le> MAX_VALUE" and c: "lo \<le> c" "c \<le> hi"
  shows "\<exists>kv. jmul (jdiv (jsub (Num c) (Num lo)) (jsub (Num hi) (Num lo))) (Num 100) = Num kv \<and>
              0 \<le> kv \<and> kv \<le> 100"
proof -
  have hpos: "0 < rnd (hi - lo)"
    using lo hi lt by (rule rnd_diff_pos)
  obtain h where h: "fl (hi - lo) = Num h" "0 \<le> h" "h \<le> MAX_VALUE"
    using fl_between [of "hi - lo" MAX_VALUE] lt fin is_f64_MAX_VALUE by auto
  have hmax: "\<not> 2 ^ 1024 \<le> \<bar>rnd (hi - lo)\<bar>"
  proof -
    have "rnd (hi - lo) \<le> rnd MAX_VALUE"
      using fin by (rule rnd_mono)
    then show ?thesis
      using is_f64_MAX_VALUE hpos by (simp add: is_f64_def)
  qed
  have hr: "h = rnd (hi - lo)"
    using h(1) hmax hpos by (simp add: fl_def Let_def)
  have HL: "jsub (Num hi) (Num lo) = Num h" and h0: "0 < h"
    using lt h(1) hpos hr by (simp_all add: jsub_Num)
  have "\<exists>cl. jsub (Num c) (Num lo) = Num cl \<and> 0 \<le> cl \<and> cl \<le> h"
  proof (cases "c - lo = 0")
    case True
    then show ?thesis
      using h0 by (simp add: jsub_Num)
  next
    case False
    have lo0: "0 \<le> rnd (c - lo)"
      using c(1) by (intro rnd_nonneg) simp
    have up: "rnd (c - lo) \<le> h"
      unfolding hr using c(2) by (intro rnd_mono) simp
    have "\<not> 2 ^ 1024 \<le> \<bar>rnd (c - lo)\<bar>"
      using lo0 up hmax hr hpos by linarith
    then have "fl (c - lo) = Num (rnd (c - lo))"
      using c(1) by (simp add: fl_def Let_def signed_zero_def)
    then show ?thesis
      using False lo0 up by (simp add: jsub_Num)
  qed
  then obtain cl where CL: "jsub (Num c) (Num lo) = Num cl" and cl: "0 \<le> cl" "cl \<le> h"
    by blast
  have "\<exists>q. jdiv (Num cl) (Num h) = Num q \<and> 0 \<le> q \<and> q \<le> 1"
  proof -
    have "0 \<le> cl / h" "cl / h \<le> 1"
      using cl h0 by simp_all
    then obtain q where "fl (cl / h) = Num q" "0 \<le> q" "q \<le> 1"
      using fl_between [of "cl / h" 1] is_f64_one_hundred(1) by blast
    then show ?thesis
      using jdiv_fl [OF h0 cl(1)] by simp
  qed
  then obtain q where Q: "jdiv (Num cl) (Num h) = Num q" and q: "0 \<le> q" "q \<le> 1"
    by blast
  have "\<exists>kv. jmul (Num q) (Num 100) = Num kv \<and> 0 \<le> kv \<and> kv \<le> 100"
  proof (cases "q = 0")
    case True
    then show ?thesis
      by (simp add: jmul_Num signed_zero_def)
  next
    case False
    have "0 \<le> q * 100" "q * 100 \<le> 100"
      using q by simp_all
    then obtain kv where "fl (q * 100) = Num kv" "0 \<le> kv" "kv \<le> 100"
      using fl_between [of "q * 100" 100] is_f64_one_hundred(2) by blast
    then show ?thesis
      using False by (simp add: jmul_Num)
  qed
  then show ?thesis
    unfolding CL HL Q .
qed

lemma bar_row_first:
  assumes "bars \<noteq> []"
  shows "\<exists>cs. map bar_row bars ! 0 = Row cs \<and> length cs = 4"
  using assms by (cases bars; cases "hd bars") (auto simp: bar_row_def)

lemma bar_row_isArray: "\<forall>y \<in> set (map bar_row bars). isArray y"
  by (auto simp: bar_row_def split: prod.splits)

lemma fl_overflow: "fl (MAX_VALUE + MAX_VALUE) = PosInf"
proof -
  have eq: "MAX_VALUE + MAX_VALUE = of_int (2 ^ 53 - 1) * 2 powi 972"
  proof -
    have "(2::real) powi 972 = 2 powi (1 + 971)" by simp
    also have "\<dots> = 2 powi 1 * 2 powi 971"
      by (rule power_int_add) simp
    finally show ?thesis
      by (simp add: MAX_VALUE_def)
  qed
  have r: "rnd (MAX_VALUE + MAX_VALUE) = MAX_VALUE + MAX_VALUE"
    unfolding eq by (rule rnd_dyadic) simp_all
  have "(2::real) powi 1024 = 2 powi (52 + 972)" by simp
  also have "\<dots> = 2 powi 52 * 2 powi 972"
    by (rule power_int_add) simp
  also have "\<dots> \<le> of_int (2 ^ 53 - 1) * 2 powi 972"
    by (intro mult_right_mono) simp_all
  finally have "(2::real) powi 1024 \<le> MAX_VALUE + MAX_VALUE"
    unfolding eq .
  then have big: "(2::real) ^ 1024 \<le> MAX_VALUE + MAX_VALUE"
    by (simp only: power_int_numeral)
  have pos: "0 < MAX_VALUE"
    by (simp add: MAX_VALUE_def)
  have "2 ^ 1024 \<le> \<bar>rnd (MAX_VALUE + MAX_VALUE)\<bar>"
    unfolding r using big by linarith
  moreover have "\<not> MAX_VALUE + MAX_VALUE < 0"
    using pos by linarith
  ultimately show ?thesis
    unfolding fl_def Let_def signed_inf_def by (simp only: if_True if_False)
qed

text \<open>
  Claim C5, as amended.  Let the input be bars of binary64 numbers, the periods positive,
  and \<open>j\<close> an output point (\<open>j + periodK \<le> n\<close>) over whose window the highest high is
  strictly greater than the lowest low, by no more than \<open>Number.MAX_VALUE\<close>.  If the
  close of the point's bar lies between the lowest low and the highest high of the
  window, as it does when it lies between the bar's own low and high, then the \<open>%K\<close>
  of that point is a number in \<open>[0, 100]\<close>.  \<open>getValues\<close> does not check that it does.
\<close>

theorem Stochastic_percentK_in_range:
  assumes "0 < periodK" and "0 < periodD" and "j + periodK \<le> length bars"
    and "\<forall>b \<in> set bars. f64_bar b"
    and "Min (bar_low ` set (take periodK (drop j bars))) <
         Max (bar_high ` set (take periodK (drop j bars)))"
    and "Max (bar_high ` set (take periodK (drop j bars))) -
         Min (bar_low ` set (take periodK (drop j bars))) \<le> MAX_VALUE"
  shows "\<exists>r. Stochastic_getValues \<lparr>xData = xVal, yData = map bar_row bars\<rparr>
                \<lparr>periods = (periodK, periodD)\<rparr> = Inr (Some r) \<and>
             j < length (yData r) \<and>
             (Min (bar_low ` set (take periodK (drop j bars)))
                 \<le> bar_close (bars ! (periodK - 1 + j)) \<and>
              bar_close (bars ! (periodK - 1 + j))
                 \<le> Max (bar_high ` set (take periodK (drop j bars))) \<longrightarrow>
              (\<exists>kv. yData r ! j ! 0 = Num kv \<and> 0 \<le> kv \<and> kv \<le> 100)) \<and>
             (bar_low (bars ! (periodK - 1 + j)) \<le> bar_close (bars ! (periodK - 1 + j)) \<and>
              bar_close (bars ! (periodK - 1 + j)) \<le> bar_high (bars ! (periodK - 1 + j)) \<longrightarrow>
              (\<exists>kv. yData r ! j ! 0 = Num kv \<and> 0 \<le> kv \<and> kv \<le> 100))"
proof -
  define w where "w = take periodK (drop j bars)"
  define lo where "lo = Min (bar_low ` set w)"
  define hi where "hi = Max (bar_high ` set w)"
  define c where "c = bar_close (bars ! (periodK - 1 + j))"
  let ?Y = "map bar_row bars"
  have lt: "lo < hi" and fin: "hi - lo \<le> MAX_VALUE"
    using assms(5,6) by (simp_all add: lo_def hi_def w_def)
  have ne: "bars \<noteq> []"
    using assms(1,3) by auto
  have w_ne: "w \<noteq> []"
    using assms(1,3) by (auto simp: w_def)
  have w_sub: "set w \<subseteq> set bars"
    unfolding w_def by (meson set_take_subset set_drop_subset subset_trans)
  have "lo \<in> bar_low ` set w"
    unfolding lo_def using w_ne by (intro Min_in) simp_all
  then have flo: "is_f64 lo"
    using w_sub assms(4) by (auto simp: f64_bar_def bar_low_def split: prod.splits)
  have "hi \<in> bar_high ` set w"
    unfolding hi_def using w_ne by (intro Max_in) simp_all
  then have fhi: "is_f64 hi"
    using w_sub assms(4) by (auto simp: f64_bar_def bar_high_def split: prod.splits)
  obtain cs where first: "?Y ! 0 = Row cs" "length cs = 4"
    using bar_row_first [OF ne] by blast
  obtain r where r: "Stochastic_getValues \<lparr>xData = xVal, yData = ?Y\<rparr>
                       \<lparr>periods = (periodK, periodD)\<rparr> = Inr (Some r)"
    and len: "length (yData r) = length ?Y - periodK + 1"
    and pk: "\<forall>j < length ?Y - periodK + 1.
               percentK ?Y periodK (periodK - 1 + j) = Inr (yData r ! j ! 0)"
    using Stochastic_getValues_percentK [OF assms(1,2) _ first bar_row_isArray, of xVal] assms(3)
    by auto
  have jl: "j < length (yData r)"
    using assms(1,3) len by simp
  have K: "yData r ! j ! 0 =
           jmul (jdiv (jsub (Num c) (Num lo)) (jsub (Num hi) (Num lo))) (Num 100)"
    using pk [rule_format, of j] jl len percentK_bars [OF assms(1,3)]
    by (simp add: c_def lo_def hi_def w_def)
  have win: "\<exists>kv. yData r ! j ! 0 = Num kv \<and> 0 \<le> kv \<and> kv \<le> 100" if "lo \<le> c" "c \<le> hi"
    unfolding K using flo fhi lt fin that by (rule percent_in_range)
  have mem: "bars ! (periodK - 1 + j) \<in> set w"
  proof -
    have "w ! (periodK - 1) = bars ! (periodK - 1 + j)"
      using assms(1,3) by (simp add: w_def add.commute)
    moreover have "periodK - 1 < length w"
      using assms(1,3) by (simp add: w_def)
    ultimately show ?thesis
      by (metis nth_mem)
  qed
  have l1: "lo \<le> bar_low (bars ! (periodK - 1 + j))"
    unfolding lo_def using mem by (intro Min_le) auto
  have l2: "bar_high (bars ! (periodK - 1 + j)) \<le> hi"
    unfolding hi_def using mem by (intro Max_ge) auto
  have own: "\<exists>kv. yData r ! j ! 0 = Num kv \<and> 0 \<le> kv \<and> kv \<le> 100"
    if "bar_low (bars ! (periodK - 1 + j)) \<le> c" "c \<le> bar_high (bars ! (periodK - 1 + j))"
  proof (rule win)
    show "lo \<le> c" using l1 that(1) by linarith
    show "c \<le> hi" using l2 that(2) by linarith
  qed
  from r jl win own show ?thesis
    unfolding c_def lo_def hi_def w_def by blast
qed

theorem Stochastic_percentK_in_range_witness:
  "(0::nat) < 2 \<and> (0::nat) < 1 \<and>
   1 + 2 \<le> length [(1, 2, 0, 1), (2, 4, 0, 3), (3, 8, 0, 4::real)] \<and>
   f64_bar (1, 2, 0, 1) \<and> f64_bar (2, 4, 0, 3) \<and> f64_bar (3, 8, 0, 4) \<and>
   Min (bar_low ` set (take 2 (drop 1 [(1, 2, 0, 1), (2, 4, 0, 3), (3, 8, 0, 4)]))) <
   Max (bar_high ` set (take 2 (drop 1 [(1, 2, 0, 1), (2, 4, 0, 3), (3, 8, 0, 4)]))) \<and>
   Max (bar_high ` set (take 2 (drop 1 [(1, 2, 0, 1), (2, 4, 0, 3), (3, 8, 0, 4)]))) -
   Min (bar_low ` set (take 2 (drop 1 [(1, 2, 0, 1), (2, 4, 0, 3), (3, 8, 0, 4)]))) \<le> MAX_VALUE \<and>
   bar_low (3, 8, 0, 4) \<le> bar_close (3, 8, 0, 4) \<and>
   bar_close (3, 8, 0, 4) \<le> bar_high (3, 8, 0, 4) \<and>
   (\<exists>r kv. Stochastic_getValues
             \<lparr>xData = [Num 10, Num 20, Num 30],
                yData = map bar_row [(1, 2, 0, 1), (2, 4, 0, 3), (3, 8, 0, 4)]\<rparr>
             \<lparr>periods = (2, 1)\<rparr> = Inr (Some r) \<and>
           yData r ! 1 ! 0 = Num kv \<and> 0 \<le> kv \<and> kv \<le> 100)"
proof -
  let ?bars = "[(1, 2, 0, 1), (2, 4, 0, 3), (3, 8, 0, 4::real)]"
  have h1: "(0::nat) < 2" and h2: "(0::nat) < 1" and h3: "1 + 2 \<le> length ?bars"
    by simp_all
  have f: "f64_bar (1, 2, 0, 1)" "f64_bar (2, 4, 0, 3)" "f64_bar (3, 8, 0, 4)"
    by (simp_all add: f64_bar_def is_f64_Ints)
  then have h4: "\<forall>b \<in> set ?bars. f64_bar b"
    by simp
  have h5: "Min (bar_low ` set (take 2 (drop 1 ?bars))) <
            Max (bar_high ` set (take 2 (drop 1 ?bars)))"
    by (simp add: bar_low_def bar_high_def)
  have "(8::real) \<le> of_int (2 ^ 53 - 1) * 2 powi 971"
  proof -
    have "(8::real) = 8 * 2 powi 0" by simp
    also have "\<dots> \<le> of_int (2 ^ 53 - 1) * 2 powi 971"
      by (intro mult_mono power_int_increasing) simp_all
    finally show ?thesis .
  qed
  then have h6: "Max (bar_high ` set (take 2 (drop 1 ?bars))) -
            Min (bar_low ` set (take 2 (drop 1 ?bars))) \<le> MAX_VALUE"
    by (simp add: bar_low_def bar_high_def MAX_VALUE_def)
  have own: "bar_low (?bars ! (2 - 1 + 1)) \<le> bar_close (?bars ! (2 - 1 + 1)) \<and>
             bar_close (?bars ! (2 - 1 + 1)) \<le> bar_high (?bars ! (2 - 1 + 1))"
    by (simp add: bar_low_def bar_high_def bar_close_def)
  from Stochastic_percentK_in_range [OF h1 h2 h3 h4 h5 h6, of "[Num 10, Num 20, Num 30]"] own
  have "\<exists>r kv. Stochastic_getValues
             \<lparr>xData = [Num 10, Num 20, Num 30], yData = map bar_row ?bars\<rparr>
             \<lparr>periods = (2, 1)\<rparr> = Inr (Some r) \<and>
           yData r ! 1 ! 0 = Num kv \<and> 0 \<le> kv \<and> kv \<le> 100"
    by blast
  moreover have "bar_low (3, 8, 0, 4::real) \<le> bar_close (3, 8, 0, 4::real) \<and>
                 bar_close (3, 8, 0, 4::real) \<le> bar_high (3, 8, 0, 4::real)"
    by (simp add: bar_low_def bar_high_def bar_close_def)
  ultimately show ?thesis
    using h1 h2 h3 f h5 h6 by blast
qed

text \<open>
  Claim C5 as stated fails in two ways.  A single accepted row \<open>[0, 1, 0, 5]\<close> (high
  1, low 0, close 5 above the high) with \<open>periodK = 1\<close> has highest high 1 above lowest
  low 0, and \<open>%K = 500\<close>.  And the row \<open>[0, M, -M, M]\<close> for \<open>M = Number.MAX_VALUE\<close>,
  whose close lies between its low and its high, has highest high \<open>M\<close> above lowest low
  \<open>-M\<close>; both differences overflow to infinity, and \<open>%K\<close> is NaN.
\<close>

theorem Stochastic_percentK_counterexample:
  "Stochastic_getValues \<lparr>xData = [Num 0], yData = [Row [Num 0, Num 1, Num 0, Num 5]]\<rparr>
     \<lparr>periods = (1, 1)\<rparr> =
     Inr (Some \<lparr>xData = [Num 0], yData = [[Num 500, Num 500]],
                values' = [[Num 0, Num 500, Num 500]]\<rparr>) \<and>
   getArrayExtremes (slice 0 1 [Row [Num 0, Num 1, Num 0, Num 5]]) 2 1 = Inr (Num 0, Num 1) \<and>
   (0::real) < 1 \<and> \<not> (500::real) \<le> 100 \<and>
   Stochastic_getValues
     \<lparr>xData = [Num 0],
        yData = [Row [Num 0, Num MAX_VALUE, Num (- MAX_VALUE), Num MAX_VALUE]]\<rparr>
     \<lparr>periods = (1, 1)\<rparr> =
     Inr (Some \<lparr>xData = [Num 0], yData = [[NaN, NaN]], values' = [[Num 0, NaN, NaN]]\<rparr>) \<and>
   getArrayExtremes (slice 0 1 [Row [Num 0, Num MAX_VALUE, Num (- MAX_VALUE), Num MAX_VALUE]]) 2 1 =
     Inr (Num (- MAX_VALUE), Num MAX_VALUE) \<and>
   f64_bar (0, MAX_VALUE, - MAX_VALUE, MAX_VALUE) \<and>
   - MAX_VALUE < MAX_VALUE \<and> - MAX_VALUE \<le> MAX_VALUE \<and> MAX_VALUE \<le> MAX_VALUE"
proof -
  let ?A = "[Row [Num 0, Num 1, Num 0, Num 5]]"
  let ?B = "[Row [Num 0, Num MAX_VALUE, Num (- MAX_VALUE), Num MAX_VALUE]]"
  have pos: "0 < MAX_VALUE"
    by (simp add: MAX_VALUE_def)
  have eA: "getArrayExtremes (slice 0 1 ?A) 2 1 = Inr (Num 0, Num 1)"
    by (simp add: getArrayExtremes_def slice_def elemAt_def jmin_Num jmax_Num)
  have kA: "percentK ?A 1 0 = Inr (Num 500)"
    using eA by (simp add: percentK_def componentAt_def elemAt_def jsub_f64 jdiv_f64 jmul_f64
        is_f64_Ints)
  have dA: "smoothedD 1 [Num 0] [[Num 500, Null]] = Inr (Num 500)"
    using smoothedD_window [of 1 "[Num 0]" "[[Num 500, Null]]"]
    by (simp add: slice_from_end_def jmean_def elemAt_def jadd_f64 jdiv_f64 is_f64_Ints)
  have sA: "stochastic_step 1 1 [Num 0] ?A 0 ([], [], [], Null) =
            Inr ([[Num 0, Num 500, Num 500]], [Num 0], [[Num 500, Num 500]], Num 500)"
    using kA dA by (simp add: stochastic_step_def elemAt_def)
  have A: "Stochastic_getValues \<lparr>xData = [Num 0], yData = ?A\<rparr> \<lparr>periods = (1, 1)\<rparr> =
     Inr (Some \<lparr>xData = [Num 0], yData = [[Num 500, Num 500]],
                values' = [[Num 0, Num 500, Num 500]]\<rparr>)"
    using sA by (simp add: Stochastic_getValues_def)
  have eB: "getArrayExtremes (slice 0 1 ?B) 2 1 = Inr (Num (- MAX_VALUE), Num MAX_VALUE)"
    by (simp add: getArrayExtremes_def slice_def elemAt_def jmin_Num jmax_Num)
  have inf: "jsub (Num MAX_VALUE) (Num (- MAX_VALUE)) = PosInf"
    using pos fl_overflow by (simp add: jsub_Num)
  have kB: "percentK ?B 1 0 = Inr NaN"
    using eB inf by (simp add: percentK_def componentAt_def elemAt_def jdiv_def jmul_def)
  have dB: "smoothedD 1 [Num 0] [[NaN, Null]] = Inr NaN"
    using smoothedD_window [of 1 "[Num 0]" "[[NaN, Null]]"]
    by (simp add: slice_from_end_def jmean_def elemAt_def jadd_def jdiv_def)
  have sB: "stochastic_step 1 1 [Num 0] ?B 0 ([], [], [], Null) =
            Inr ([[Num 0, NaN, NaN]], [Num 0], [[NaN, NaN]], NaN)"
    using kB dB by (simp add: stochastic_step_def elemAt_def)
  have B: "Stochastic_getValues \<lparr>xData = [Num 0], yData = ?B\<rparr> \<lparr>periods = (1, 1)\<rparr> =
     Inr (Some \<lparr>xData = [Num 0], yData = [[NaN, NaN]], values' = [[Num 0, NaN, NaN]]\<rparr>)"
    using sB by (simp add: Stochastic_getValues_def)
  have fB: "f64_bar (0, MAX_VALUE, - MAX_VALUE, MAX_VALUE)"
    by (simp add: f64_bar_def is_f64_zero is_f64_MAX_VALUE is_f64_minus)
  show ?thesis
    using A eA B eB fB pos by simp
qed

section \<open>The EMA cascade: failure sentinel and rounding\<close>

lemma floor_log10_bounds:
  assumes "0 < x"
  shows "10 powi \<lfloor>log 10 x\<rfloor> \<le> x" and "x < 10 powi (\<lfloor>log 10 x\<rfloor> + 1)"
proof -
  have a: "(10::real) powr real_of_int \<lfloor>log 10 x\<rfloor> = 10 powi \<lfloor>log 10 x\<rfloor>"
    by (rule powr_real_of_int') simp_all
  have b: "(10::real) powr real_of_int (\<lfloor>log 10 x\<rfloor> + 1) = 10 powi (\<lfloor>log 10 x\<rfloor> + 1)"
    by (rule powr_real_of_int') simp_all
  have "10 powr real_of_int \<lfloor>log 10 x\<rfloor> \<le> x \<and> x < 10 powr real_of_int (\<lfloor>log 10 x\<rfloor> + 1)"
    using floor_log_eq_powr_iff [of x 10 "\<lfloor>log 10 x\<rfloor>"] assms by fastforce
  then show "10 powi \<lfloor>log 10 x\<rfloor> \<le> x" and "x < 10 powi (\<lfloor>log 10 x\<rfloor> + 1)"
    unfolding a b by simp_all
qed

lemma correctFloat_real_gap:
  "\<not> (13333333333333 / 10 ^ 13 < correctFloat_real v \<and>
      correctFloat_real v < 13333333333334 / 10 ^ 13)"
proof
  assume gap: "13333333333333 / 10 ^ 13 < correctFloat_real v \<and>
               correctFloat_real v < 13333333333334 / 10 ^ 13"
  then have nz: "v \<noteq> 0"
    by (auto simp: correctFloat_real_def)
  define e where "e = \<lfloor>log 10 \<bar>v\<bar>\<rfloor>"
  define s :: real where "s = 10 powi (e - 13)"
  define M where "M = round (v / s)"
  have spos: "0 < s"
    by (simp add: s_def)
  have d: "correctFloat_real v = of_int M * s"
    using nz by (simp add: correctFloat_real_def Let_def e_def s_def M_def)
  have "(10::real) powi e = 10 powi (13 + (e - 13))"
    by (rule arg_cong [of _ _ "power_int 10"]) simp
  also have "\<dots> = 10 powi 13 * 10 powi (e - 13)"
    by (rule power_int_add) simp
  finally have pe: "(10::real) powi e = 10 ^ 13 * s"
    by (simp add: s_def)
  have "(10::real) powi (e + 1) = 10 powi (14 + (e - 13))"
    by (rule arg_cong [of _ _ "power_int 10"]) simp
  also have "\<dots> = 10 powi 14 * 10 powi (e - 13)"
    by (rule power_int_add) simp
  finally have pe1: "(10::real) powi (e + 1) = 10 ^ 14 * s"
    by (simp add: s_def)
  have lo: "10 ^ 13 * s \<le> \<bar>v\<bar>" and hi: "\<bar>v\<bar> < 10 ^ 14 * s"
    using floor_log10_bounds [of "\<bar>v\<bar>"] nz unfolding e_def [symmetric] pe pe1 by simp_all
  have Mpos: "0 < M"
  proof -
    have "0 < of_int M * s"
      using gap d by simp
    then have "(0::real) < of_int M"
      using spos by (simp add: zero_less_mult_iff)
    then show ?thesis by simp
  qed
  have vpos: "0 < v"
  proof (rule ccontr)
    assume "\<not> 0 < v"
    then have "v / s \<le> 0"
      using spos by (simp add: divide_nonpos_pos)
    then have "round (v / s) \<le> round (0::real)"
      by (rule round_mono)
    then show False
      using Mpos by (simp add: M_def)
  qed
  have q1: "10 ^ 13 \<le> v / s" and q2: "v / s < 10 ^ 14"
    using lo hi vpos spos by (simp_all add: field_simps)
  have "of_int (round (10 ^ 13 :: real)) \<le> (of_int M :: real)"
    unfolding M_def using q1 by (intro of_int_le_iff [THEN iffD2] round_mono)
  then have M1: "(10 ^ 13 :: real) \<le> of_int M"
    by simp
  have "(of_int M :: real) \<le> of_int (round (10 ^ 14 :: real))"
    unfolding M_def using q2 by (intro of_int_le_iff [THEN iffD2] round_mono) simp
  then have M2: "of_int M \<le> (10 ^ 14 :: real)"
    by simp
  consider "1 \<le> e" | "e \<le> - 1" | "e = 0" by linarith
  then show False
  proof cases
    case 1
    then have "(10::real) powi (- 12) \<le> s"
      unfolding s_def by (intro power_int_increasing) simp_all
    then have "10 ^ 13 * (10::real) powi (- 12) \<le> of_int M * s"
      using M1 by (intro mult_mono) simp_all
    then have "10 \<le> correctFloat_real v"
      unfolding d by (simp add: power_int_minus)
    then show False
      using gap by simp
  next
    case 2
    then have "s \<le> (10::real) powi (- 14)"
      unfolding s_def by (intro power_int_increasing) simp_all
    then have "of_int M * s \<le> 10 ^ 14 * (10::real) powi (- 14)"
      using M2 Mpos spos by (intro mult_mono) simp_all
    then have "correctFloat_real v \<le> 1"
      unfolding d by (simp add: power_int_minus)
    then show False
      using gap by simp
  next
    case 3
    then have "s = 1 / 10 ^ 13"
      by (simp add: s_def power_int_minus field_simps)
    then have "correctFloat_real v = of_int M / 10 ^ 13"
      by (simp add: d)
    then have "(13333333333333::real) < of_int M" and "of_int M < (13333333333334::real)"
      using gap by simp_all
    then have "13333333333333 < M" and "M < 13333333333334"
      by linarith+
    then show False
      by linarith
  qed
qed

lemma rnd_four_thirds: "rnd (4 / 3) = 6004799503160661 / 4503599627370496"
proof -
  have "rnd (4 / 3) = of_int (round_even (4 / 3 / 2 powi (0 - 52))) * 2 powi (0 - 52)"
    by (rule rnd_binade) simp_all
  also have "round_even (4 / 3 / 2 powi (0 - 52)) = 6004799503160661"
    by (simp add: round_even_def Let_def power_int_minus)
  finally show ?thesis
    by (simp add: power_int_minus)
qed

lemma jdiv_four_thirds: "jdiv (Num 4) (Num 3) = Num (6004799503160661 / 4503599627370496)"
  by (simp add: jdiv_Num fl_def rnd_four_thirds)

lemma correctFloat_not_four_thirds:
  "Num (6004799503160661 / 4503599627370496) \<notin> range correctFloat"
proof
  define y :: real where "y = 6004799503160661 / 4503599627370496"
  assume "Num (6004799503160661 / 4503599627370496) \<in> range correctFloat"
  then obtain a where a: "correctFloat a = Num y"
    unfolding y_def by auto
  have y0: "y \<noteq> 0"
    by (simp add: y_def)
  have "\<exists>v. fl (correctFloat_real v) = Num y"
    using a y0 by (cases a) auto
  then obtain v where v: "fl (correctFloat_real v) = Num y"
    by blast
  define d where "d = correctFloat_real v"
  have r: "rnd d = y"
    using v y0 unfolding d_def [symmetric] fl_def Let_def signed_inf_def signed_zero_def
    by (auto split: if_splits)
  have below: "rnd (6004799503160660 / 4503599627370496) = 6004799503160660 / 4503599627370496"
    using rnd_dyadic [of 6004799503160660 "- 52"] by (simp add: power_int_minus)
  have above: "rnd (6004799503160662 / 4503599627370496) = 6004799503160662 / 4503599627370496"
    using rnd_dyadic [of 6004799503160662 "- 52"] by (simp add: power_int_minus)
  consider "d \<le> 13333333333333 / 10 ^ 13" | "13333333333334 / 10 ^ 13 \<le> d"
    using correctFloat_real_gap [of v] unfolding d_def by linarith
  then show False
  proof cases
    case 1
    then have "d \<le> 6004799503160660 / 4503599627370496"
      by simp
    then have "rnd d \<le> rnd (6004799503160660 / 4503599627370496)"
      by (rule rnd_mono)
    then show False
      unfolding r below by (simp add: y_def)
  next
    case 2
    then have "6004799503160662 / 4503599627370496 \<le> d"
      by simp
    then have "rnd (6004799503160662 / 4503599627370496) \<le> rnd d"
      by (rule rnd_mono)
    then show False
      unfolding r above by (simp add: y_def)
  qed
qed

text \<open>Counting the iterations that push a point.\<close>

lemma length_filter_le_upt:
  "length (filter (\<lambda>i. a \<le> i) [b..<m]) = m - max a b"
  by (induction m) (auto simp: max_def)

lemma pairs_snoc:
  "length xs = length ys \<Longrightarrow> pairs (xs @ [x]) (ys @ [y]) = pairs xs ys @ [[x, y]]"
  by (simp add: pairs_def)

lemma dema_step_inv:
  assumes "dema_inv s"
  shows "dema_inv (dema_step E pct p idx xVal yVal i s) \<and>
         length (d_yDataDema (dema_step E pct p idx xVal yVal i s)) =
           length (d_yDataDema s) + (if 2 * p \<le> i then 1 else 0)"
  using assms by (auto simp: dema_inv_def dema_step_def Let_def pairs_snoc)

lemma dema_fold_inv:
  assumes "dema_inv s"
  shows "dema_inv (fold (dema_step E pct p idx xVal yVal) is s) \<and>
         length (d_yDataDema (fold (dema_step E pct p idx xVal yVal) is s)) =
           length (d_yDataDema s) + length (filter (\<lambda>i. 2 * p \<le> i) is)"
  using assms
proof (induction "is" arbitrary: s)
  case Nil
  then show ?case by simp
next
  case (Cons i "is")
  from dema_step_inv [OF Cons.prems, of E pct p idx xVal yVal i]
  have inv: "dema_inv (dema_step E pct p idx xVal yVal i s)"
    and len: "length (d_yDataDema (dema_step E pct p idx xVal yVal i s)) =
              length (d_yDataDema s) + (if 2 * p \<le> i then 1 else 0)"
    by simp_all
  from Cons.IH [OF inv] len show ?case
    by simp
qed

lemma DEMA_getValues_shape:
  assumes "\<not> length (yData series) < 2 * period params - 1"
  shows "\<exists>r. DEMA_getValues E series params = Some r \<and>
             length (yData r) = length (yData series) + 2 - 2 * period params \<and>
             length (xData r) = length (yData r) \<and>
             values' r = pairs (xData r) (yData r) \<and>
             set (yData r) \<subseteq> range correctFloat"
proof -
  define p where "p = period params"
  define s0 where "s0 = \<lparr>d_accumulatePeriodPoints = Num 0,
      d_SMA = jdiv (accumulatePeriodPoints E p (sma_index (yData series) params) (yData series))
                (Num (real p)),
      d_DEMA = [], d_xDataDema = [], d_yDataDema = [], d_EMA = Num 0, d_prevEMA = None,
      d_prevEMAlevel2 = None, d_EMAvalues = []\<rparr>"
  define s where "s = fold (dema_step E (jdiv (Num 2) (Num (real p + 1))) p
                        (sma_index (yData series) params) (xData series) (yData series))
                      [p..<length (yData series) + 2] s0"
  have "dema_inv s0"
    by (simp add: dema_inv_def s0_def pairs_def)
  from dema_fold_inv [OF this] have inv: "dema_inv s"
    and len: "length (d_yDataDema s) =
              length (filter (\<lambda>i. 2 * p \<le> i) [p..<length (yData series) + 2])"
    unfolding s_def by (simp_all add: s0_def)
  have cnt: "length (d_yDataDema s) = length (yData series) + 2 - 2 * p"
    unfolding len length_filter_le_upt by (simp add: max_def)
  have "DEMA_getValues E series params =
        Some \<lparr>xData = d_xDataDema s, yData = d_yDataDema s, values' = d_DEMA s\<rparr>"
    using assms by (simp add: DEMA_getValues_def Let_def s_def s0_def p_def)
  with inv cnt show ?thesis
    by (simp add: dema_inv_def p_def)
qed

lemma tema_point_step_inv:
  assumes "tema_inv s"
  shows "tema_inv (tema_point_step E pct p xVal yVal i s) \<and>
         length (t_yDataTema (tema_point_step E pct p xVal yVal i s)) =
           length (t_yDataTema s) + 1"
  using assms by (auto simp: tema_inv_def tema_point_step_def getTemaPoint_def Let_def pairs_snoc)

lemma tema_step_inv:
  assumes "tema_inv s"
  shows "tema_inv (tema_step E pct p idx xVal yVal i s) \<and>
         length (t_yDataTema (tema_step E pct p idx xVal yVal i s)) =
           length (t_yDataTema s) + (if 3 * p \<le> i then 1 else 0)"
proof (cases "3 * p \<le> i")
  case True
  then have two: "\<not> i < 2 * p" and three: "\<not> i < 3 * p"
    by simp_all
  define s4 where "s4 =
    (let yValLen = length yVal;
         s1 = (if i < yValLen + 1
               then (let e = snd (getEMA E pct yVal (t_prevEMA s) (t_SMA s) idx (Some i))
                     in s\<lparr>t_level1 := e, t_EMAvalues := t_EMAvalues s @ [e]\<rparr>)
               else s);
         s2 = s1\<lparr>t_prevEMA := Some (t_level1 s1)\<rparr>;
         s3 = (if i = 2 * p
               then s2\<lparr>t_SMA := jdiv (t_accumulatePeriodPoints s2) (Num (real p)),
                       t_accumulatePeriodPoints := Num 0\<rparr>
               else s2);
         l1 = elemAtI (t_EMAvalues s3) (int i - int p - 1);
         l2 = snd (getEMA E pct [Scalar l1] (t_prevEMAlevel2 s3) (t_SMA s3) None None)
     in s3\<lparr>t_level1 := l1, t_level2 := l2,
             t_EMAlevel2values := t_EMAlevel2values s3 @ [l2],
             t_prevEMAlevel2 := Some l2\<rparr>)"
  have step: "tema_step E pct p idx xVal yVal i s = tema_point_step E pct p xVal yVal i s4"
    using two three by (simp add: tema_step_def s4_def Let_def)
  have "tema_inv s4" and "length (t_yDataTema s4) = length (t_yDataTema s)"
    using assms by (auto simp: tema_inv_def s4_def Let_def)
  with tema_point_step_inv [of s4 E pct p xVal yVal i] True show ?thesis
    unfolding step by simp
next
  case False
  with assms show ?thesis
    by (auto simp: tema_inv_def tema_step_def Let_def)
qed

lemma tema_fold_inv:
  assumes "tema_inv s"
  shows "tema_inv (fold (tema_step E pct p idx xVal yVal) is s) \<and>
         length (t_yDataTema (fold (tema_step E pct p idx xVal yVal) is s)) =
           length (t_yDataTema s) + length (filter (\<lambda>i. 3 * p \<le> i) is)"
  using assms
proof (induction "is" arbitrary: s)
  case Nil
  then show ?case by simp
next
  case (Cons i "is")
  from tema_step_inv [OF Cons.prems, of E pct p idx xVal yVal i]
  have inv: "tema_inv (tema_step E pct p idx xVal yVal i s)"
    and len: "length (t_yDataTema (tema_step E pct p idx xVal yVal i s)) =
              length (t_yDataTema s) + (if 3 * p \<le> i then 1 else 0)"
    by simp_all
  from Cons.IH [OF inv] len show ?case
    by simp
qed

lemma TEMA_getValues_shape:
  assumes "\<not> length (yData series) < 3 * period params - 2"
  shows "\<exists>r. TEMA_getValues E series params = Some r \<and>
             length (yData r) = length (yData series) + 3 - 3 * period params \<and>
             length (xData r) = length (yData r) \<and>
             values' r = pairs (xData r) (yData r) \<and>
             set (yData r) \<subseteq> range correctFloat"
proof -
  define p where "p = period params"
  define s0 where "s0 = \<lparr>t_accumulatePeriodPoints = Num 0,
      t_SMA = jdiv (accumulatePeriodPoints E p (sma_index (yData series) params) (yData series))
                (Num (real p)),
      t_TEMA = [], t_xDataTema = [], t_yDataTema = [], t_prevEMA = None,
      t_prevEMAlevel2 = None, t_EMAvalues = [], t_EMAlevel2values = [],
      t_level1 = Undefined, t_level2 = Undefined, t_level3 = Undefined, t_prevLevel3 = None\<rparr>"
  define s where "s = fold (tema_step E (jdiv (Num 2) (Num (real p + 1))) p
                        (sma_index (yData series) params) (xData series) (yData series))
                      [p..<length (yData series) + 3] s0"
  have "tema_inv s0"
    by (simp add: tema_inv_def s0_def pairs_def)
  from tema_fold_inv [OF this] have inv: "tema_inv s"
    and len: "length (t_yDataTema s) =
              length (filter (\<lambda>i. 3 * p \<le> i) [p..<length (yData series) + 3])"
    unfolding s_def by (simp_all add: s0_def)
  have cnt: "length (t_yDataTema s) = length (yData series) + 3 - 3 * p"
    unfolding len length_filter_le_upt by (simp add: max_def)
  have "TEMA_getValues E series params =
        Some \<lparr>xData = t_xDataTema s, yData = t_yDataTema s, values' = t_TEMA s\<rparr>"
    using assms by (simp add: TEMA_getValues_def Let_def s_def s0_def p_def)
  with inv cnt show ?thesis
    by (simp add: tema_inv_def p_def)
qed

lemma ppo_oscillator_range: "ppo_oscillator a b off i \<in> range correctFloat"
  by (simp add: ppo_oscillator_def)

lemma PPO_getValues_range:
  assumes "PPO_getValues E series params = Some r"
  shows "set (yData r) \<subseteq> range correctFloat"
  using assms
  by (auto simp: PPO_getValues_def Let_def ppo_oscillator_range
      split: if_splits option.splits)

text \<open>
  Claim C6.  \<open>DEMAIndicator.getValues\<close> returns \<open>false\<close> exactly when the input
  \<open>yData\<close> is shorter than \<open>2p - 1\<close>, and \<open>TEMAIndicator.getValues\<close> exactly when it is
  shorter than \<open>3p - 2\<close>.  The value \<open>false\<close> carries no series; otherwise a result
  object is returned whose \<open>xData\<close> and \<open>yData\<close> are parallel, of length
  \<open>n + 2 - 2p\<close> for DEMA and \<open>n + 3 - 3p\<close> for TEMA, and whose \<open>values\<close> are the
  points \<open>[x, y]\<close>.  This holds whatever the EMA methods compute.
\<close>

theorem DEMA_TEMA_getValues_sentinel:
  "(DEMA_getValues E series params = None \<longleftrightarrow>
      length (yData series) < 2 * period params - 1) \<and>
   (TEMA_getValues E series params = None \<longleftrightarrow>
      length (yData series) < 3 * period params - 2) \<and>
   (\<not> length (yData series) < 2 * period params - 1 \<longrightarrow>
      (\<exists>r. DEMA_getValues E series params = Some r \<and>
           length (yData r) = length (yData series) + 2 - 2 * period params \<and>
           length (xData r) = length (yData r) \<and>
           values' r = pairs (xData r) (yData r))) \<and>
   (\<not> length (yData series) < 3 * period params - 2 \<longrightarrow>
      (\<exists>r. TEMA_getValues E series params = Some r \<and>
           length (yData r) = length (yData series) + 3 - 3 * period params \<and>
           length (xData r) = length (yData r) \<and>
           values' r = pairs (xData r) (yData r)))"
proof (intro conjI impI)
  show "DEMA_getValues E series params = None \<longleftrightarrow>
        length (yData series) < 2 * period params - 1"
    by (simp add: DEMA_getValues_def Let_def)
  show "TEMA_getValues E series params = None \<longleftrightarrow>
        length (yData series) < 3 * period params - 2"
    by (simp add: TEMA_getValues_def Let_def)
next
  assume "\<not> length (yData series) < 2 * period params - 1"
  from DEMA_getValues_shape [OF this, of E]
  show "\<exists>r. DEMA_getValues E series params = Some r \<and>
           length (yData r) = length (yData series) + 2 - 2 * period params \<and>
           length (xData r) = length (yData r) \<and>
           values' r = pairs (xData r) (yData r)"
    by blast
next
  assume "\<not> length (yData series) < 3 * period params - 2"
  from TEMA_getValues_shape [OF this, of E]
  show "\<exists>r. TEMA_getValues E series params = Some r \<and>
           length (yData r) = length (yData series) + 3 - 3 * period params \<and>
           length (xData r) = length (yData r) \<and>
           values' r = pairs (xData r) (yData r)"
    by blast
qed

theorem DEMA_TEMA_getValues_sentinel_witness:
  "\<not> length (yData \<lparr>xData = map Num [0, 1, 2, 3, 4],
                     yData = map (\<lambda>v. Scalar (Num v)) [1, 2, 3, 4, 5]\<rparr>)
       < 2 * period \<lparr>period = 2, index = None\<rparr> - 1 \<and>
   \<not> length (yData \<lparr>xData = map Num [0, 1, 2, 3, 4],
                     yData = map (\<lambda>v. Scalar (Num v)) [1, 2, 3, 4, 5]\<rparr>)
       < 3 * period \<lparr>period = 2, index = None\<rparr> - 2 \<and>
   (\<exists>r. DEMA_getValues spec_EMA
          \<lparr>xData = map Num [0, 1, 2, 3, 4], yData = map (\<lambda>v. Scalar (Num v)) [1, 2, 3, 4, 5]\<rparr>
          \<lparr>period = 2, index = None\<rparr> = Some r \<and> length (yData r) = 3) \<and>
   (\<exists>r. TEMA_getValues spec_EMA
          \<lparr>xData = map Num [0, 1, 2, 3, 4], yData = map (\<lambda>v. Scalar (Num v)) [1, 2, 3, 4, 5]\<rparr>
          \<lparr>period = 2, index = None\<rparr> = Some r \<and> length (yData r) = 2) \<and>
   length (yData \<lparr>xData = map Num [0, 1], yData = map (\<lambda>v. Scalar (Num v)) [1, 2]\<rparr>)
       < 2 * period \<lparr>period = 2, index = None\<rparr> - 1 \<and>
   DEMA_getValues spec_EMA
     \<lparr>xData = map Num [0, 1], yData = map (\<lambda>v. Scalar (Num v)) [1, 2]\<rparr>
     \<lparr>period = 2, index = None\<rparr> = None"
proof -
  let ?S = "\<lparr>xData = map Num [0, 1, 2, 3, 4], yData = map (\<lambda>v. Scalar (Num v)) [1, 2, 3, 4, 5]\<rparr>"
  let ?T = "\<lparr>xData = map Num [0, 1], yData = map (\<lambda>v. Scalar (Num v)) [1, 2]\<rparr>"
  let ?P = "\<lparr>period = 2, index = None\<rparr>"
  have d: "\<not> length (yData ?S) < 2 * period ?P - 1"
    and t: "\<not> length (yData ?S) < 3 * period ?P - 2"
    and short: "length (yData ?T) < 2 * period ?P - 1"
    by simp_all
  from DEMA_TEMA_getValues_sentinel [of spec_EMA ?S ?P] d t
  have "\<exists>r. DEMA_getValues spec_EMA ?S ?P = Some r \<and> length (yData r) = 3"
    and "\<exists>r. TEMA_getValues spec_EMA ?S ?P = Some r \<and> length (yData r) = 2"
    by auto
  moreover from DEMA_TEMA_getValues_sentinel [of spec_EMA ?T ?P] short
  have "DEMA_getValues spec_EMA ?T ?P = None"
    by blast
  ultimately show ?thesis
    using d t short by blast
qed

text \<open>
  Claim C9, as amended.  Every value that \<open>DEMAIndicator.getValues\<close>,
  \<open>TEMAIndicator.getValues\<close> and \<open>PPOIndicator.getValues\<close> place in the returned
  \<open>yData\<close> has been passed through \<open>correctFloat\<close>.  (\<open>SMAIndicator.getValues\<close> and
  \<open>StochasticIndicator.getValues\<close> return their quotients as computed.)
\<close>

theorem cascade_yData_correctFloat:
  "(\<forall>r. DEMA_getValues E series params = Some r \<longrightarrow> set (yData r) \<subseteq> range correctFloat) \<and>
   (\<forall>r. TEMA_getValues E series params = Some r \<longrightarrow> set (yData r) \<subseteq> range correctFloat) \<and>
   (\<forall>r. PPO_getValues E series pparams = Some r \<longrightarrow> set (yData r) \<subseteq> range correctFloat)"
proof (intro conjI allI impI)
  fix r assume r: "DEMA_getValues E series params = Some r"
  then have "\<not> length (yData series) < 2 * period params - 1"
    by (auto simp: DEMA_getValues_def Let_def split: if_splits)
  from DEMA_getValues_shape [OF this, of E] r
  show "set (yData r) \<subseteq> range correctFloat"
    by auto
next
  fix r assume r: "TEMA_getValues E series params = Some r"
  then have "\<not> length (yData series) < 3 * period params - 2"
    by (auto simp: TEMA_getValues_def Let_def split: if_splits)
  from TEMA_getValues_shape [OF this, of E] r
  show "set (yData r) \<subseteq> range correctFloat"
    by auto
next
  fix r assume "PPO_getValues E series pparams = Some r"
  then show "set (yData r) \<subseteq> range correctFloat"
    by (rule PPO_getValues_range)
qed

lemma spec_ema_getValues_length:
  assumes "period params \<le> length (yData series)"
  shows "\<exists>r. spec_ema_getValues series params = Some r \<and>
             length (yData r) = length (yData series) + 1 - period params"
proof -
  have "length (fold (\<lambda>i acc. acc @ [f i acc]) is acc0) = length acc0 + length is"
    for f :: "nat \<Rightarrow> (jsnum \<times> jsnum) list \<Rightarrow> jsnum \<times> jsnum" and "is" acc0
    by (induction "is" arbitrary: acc0) simp_all
  then show ?thesis
    using assms by (simp add: spec_ema_getValues_def Let_def)
qed

theorem cascade_yData_correctFloat_witness:
  "(\<exists>r. DEMA_getValues spec_EMA
          \<lparr>xData = map Num [0, 1, 2, 3, 4], yData = map (\<lambda>v. Scalar (Num v)) [1, 2, 3, 4, 5]\<rparr>
          \<lparr>period = 2, index = None\<rparr> = Some r \<and>
        yData r \<noteq> [] \<and> set (yData r) \<subseteq> range correctFloat) \<and>
   (\<exists>r. TEMA_getValues spec_EMA
          \<lparr>xData = map Num [0, 1, 2, 3, 4], yData = map (\<lambda>v. Scalar (Num v)) [1, 2, 3, 4, 5]\<rparr>
          \<lparr>period = 2, index = None\<rparr> = Some r \<and>
        yData r \<noteq> [] \<and> set (yData r) \<subseteq> range correctFloat) \<and>
   (\<exists>r. PPO_getValues spec_EMA
          \<lparr>xData = map Num [0, 1, 2, 3, 4], yData = map (\<lambda>v. Scalar (Num v)) [1, 2, 3, 4, 5]\<rparr>
          \<lparr>ppo_periods = [1, 2], ppo_index = None\<rparr> = Some r \<and>
        yData r \<noteq> [] \<and> set (yData r) \<subseteq> range correctFloat)"
proof -
  let ?S = "\<lparr>xData = map Num [0, 1, 2, 3, 4], yData = map (\<lambda>v. Scalar (Num v)) [1, 2, 3, 4, 5]\<rparr>"
  let ?P = "\<lparr>period = 2, index = None\<rparr>"
  let ?Q = "\<lparr>ppo_periods = [1, 2], ppo_index = None\<rparr>"
  note main = cascade_yData_correctFloat [of spec_EMA ?S ?P ?Q]
  have d: "\<not> length (yData ?S) < 2 * period ?P - 1"
    and t: "\<not> length (yData ?S) < 3 * period ?P - 2"
    by simp_all
  obtain rd where rd: "DEMA_getValues spec_EMA ?S ?P = Some rd" "length (yData rd) = 3"
    using DEMA_getValues_shape [OF d, of spec_EMA] by auto
  obtain rt where rt: "TEMA_getValues spec_EMA ?S ?P = Some rt" "length (yData rt) = 2"
    using TEMA_getValues_shape [OF t, of spec_EMA] by auto
  obtain spe where spe: "spec_ema_getValues ?S \<lparr>period = 1, index = None\<rparr> = Some spe"
    using spec_ema_getValues_length [of "\<lparr>period = 1, index = None\<rparr>" ?S] by auto
  obtain lpe where lpe: "spec_ema_getValues ?S \<lparr>period = 2, index = None\<rparr> = Some lpe"
      "length (yData lpe) = 4"
    using spec_ema_getValues_length [of "\<lparr>period = 2, index = None\<rparr>" ?S] by auto
  obtain rp where rp: "PPO_getValues spec_EMA ?S ?Q = Some rp" "length (yData rp) = 4"
    using spe lpe by (simp add: PPO_getValues_def spec_EMA_def Let_def)
  from rd rt rp main show ?thesis
    by (metis length_0_conv zero_neq_numeral)
qed

text \<open>
  Claim C9 as stated fails for the SMA: with period 3 over \<open>[1, 1, 2]\<close> it returns
  the binary64 quotient \<open>4 / 3\<close>, \<open>1.3333333333333333\<close>, which is no value of
  \<open>correctFloat\<close>: the values of \<open>correctFloat\<close> nearest to it are the binary64
  numbers nearest to \<open>1.3333333333333\<close> and to \<open>1.3333333333334\<close>.
\<close>

theorem SMA_yData_not_rounded:
  "SMA_getValues \<lparr>xData = map Num [0, 1, 2], yData = Numbers (map Num [1, 1, 2])\<rparr>
     \<lparr>period = 3, index = None\<rparr> =
     Inr (Some \<lparr>xData = [Num 2], yData = [Num (6004799503160661 / 4503599627370496)],
                values' = [[Num 2, Num (6004799503160661 / 4503599627370496)]]\<rparr>) \<and>
   Num (6004799503160661 / 4503599627370496) \<notin> range correctFloat"
proof
  show "SMA_getValues \<lparr>xData = map Num [0, 1, 2], yData = Numbers (map Num [1, 1, 2])\<rparr>
     \<lparr>period = 3, index = None\<rparr> =
     Inr (Some \<lparr>xData = [Num 2], yData = [Num (6004799503160661 / 4503599627370496)],
                values' = [[Num 2, Num (6004799503160661 / 4503599627370496)]]\<rparr>)"
    by (simp add: SMA_getValues_def sma_accumulate_def sma_step_def upt_rec elemAt_def
        jadd_f64 jsub_f64 is_f64_Ints jdiv_four_thirds)
  show "Num (6004799503160661 / 4503599627370496) \<notin> range correctFloat"
    by (rule correctFloat_not_four_thirds)
qed

section \<open>3D shapes: visibility, face selection and z-indexes\<close>

lemma shapeArea_coincident:
  assumes "\<forall>v \<in> set vs. v = c"
  shows "shapeArea vs = 0"
proof -
  have zero: "(let j = (i + 1) mod length vs
         in posX (vs ! i) * posY (vs ! j) - posX (vs ! j) * posY (vs ! i)) = 0"
    if "i \<in> set [0..<length vs]" for i
  proof -
    have i: "i < length vs" using that by simp
    then have "0 < length vs" by (cases vs) auto
    then have "(i + 1) mod length vs < length vs" by (rule mod_less_divisor)
    with i assms have "vs ! i = c" "vs ! ((i + 1) mod length vs) = c"
      by (metis nth_mem)+
    then show ?thesis by (simp add: Let_def)
  qed
  have eq: "map (\<lambda>i. let j = (i + 1) mod length vs
         in posX (vs ! i) * posY (vs ! j) - posX (vs ! j) * posY (vs ! i)) [0..<length vs] =
        map (\<lambda>i. 0) [0..<length vs]"
    by (intro map_cong refl) (rule zero)
  show ?thesis
    unfolding shapeArea_def eq by simp
qed

lemma face3d_attr_visibility:
  assumes "hash_enabled hash \<noteq> None \<or> hash_vertexes hash \<noteq> None \<or>
           hash_insidePlotArea hash \<noteq> None"
  shows "attr_visibility (face3d_attr proj this hash) =
         Some (if pick (hash_enabled hash) (enabled this) \<and>
                  shapeArea (perspective proj (pick (hash_vertexes hash) (vertexes this))
                               (pick (hash_insidePlotArea hash) (insidePlotArea this))) > 0
               then ''visible'' else ''hidden'')"
  using assms by (simp add: face3d_attr_def Let_def)

lemma face3d_animate_visibility:
  assumes "hash_enabled hash \<noteq> None \<or> hash_vertexes hash \<noteq> None \<or>
           hash_insidePlotArea hash \<noteq> None"
  shows "attr_visibility (face3d_animate proj this hash) =
         Some (if pick (hash_enabled hash) (enabled this) \<and>
                  shapeArea (perspective proj (pick (hash_vertexes hash) (vertexes this))
                               (pick (hash_insidePlotArea hash) (insidePlotArea this))) > 0
               then ''visible'' else ''hidden'')"
  using assms by (simp add: face3d_animate_def Let_def)

text \<open>
  Claim C2.  For a \<open>face3d\<close> element and an \<open>attr\<close> or \<open>animate\<close> update that supplies
  vertexes, an enabled flag and \<open>insidePlotArea\<close>, the visibility is set to \<open>visible\<close>
  exactly when the flag is true and the signed area of the projected vertex polygon is
  strictly greater than 0, and to \<open>hidden\<close> otherwise.  So a face whose projection has
  area zero is hidden, in particular one whose vertexes all coincide; the update is a
  total computation and raises nothing.
\<close>

theorem face3d_visible_iff:
  fixes proj this e vs ins
  defines "hash \<equiv> \<lparr>hash_enabled = Some e, hash_vertexes = Some vs, hash_insidePlotArea = Some ins\<rparr>"
  defines "area \<equiv> shapeArea (perspective proj vs ins)"
  shows "(attr_visibility (face3d_attr proj this hash) = Some ''visible'' \<longleftrightarrow> e \<and> area > 0) \<and>
         (attr_visibility (face3d_attr proj this hash) = Some ''hidden'' \<longleftrightarrow> \<not> (e \<and> area > 0)) \<and>
         (attr_visibility (face3d_animate proj this hash) = Some ''visible'' \<longleftrightarrow> e \<and> area > 0) \<and>
         (attr_visibility (face3d_animate proj this hash) = Some ''hidden'' \<longleftrightarrow> \<not> (e \<and> area > 0)) \<and>
         (area = 0 \<longrightarrow>
            attr_visibility (face3d_attr proj this hash) = Some ''hidden'' \<and>
            attr_visibility (face3d_animate proj this hash) = Some ''hidden'') \<and>
         ((\<forall>v \<in> set vs. v = c) \<longrightarrow>
            attr_visibility (face3d_attr proj this hash) = Some ''hidden'' \<and>
            attr_visibility (face3d_animate proj this hash) = Some ''hidden'')"
proof -
  have a: "attr_visibility (face3d_attr proj this hash) =
           Some (if e \<and> area > 0 then ''visible'' else ''hidden'')"
    using face3d_attr_visibility [of hash proj this]
    by (simp add: hash_def area_def pick_def)
  have b: "attr_visibility (face3d_animate proj this hash) =
           Some (if e \<and> area > 0 then ''visible'' else ''hidden'')"
    using face3d_animate_visibility [of hash proj this]
    by (simp add: hash_def area_def pick_def)
  have c: "area = 0" if "\<forall>v \<in> set vs. v = c"
    unfolding area_def perspective_def
    by (rule shapeArea_coincident [where c = "proj ins c"]) (use that in auto)
  show ?thesis
    unfolding a b using c by auto
qed

theorem face3d_visible_iff_witness:
  "shapeArea (perspective orthographic
      [\<lparr>posX = 0, posY = 0, posZ = 0\<rparr>, \<lparr>posX = 1, posY = 0, posZ = 0\<rparr>,
       \<lparr>posX = 0, posY = 1, posZ = 0\<rparr>] False) > 0 \<and>
   attr_visibility (face3d_attr orthographic face3d_new
      \<lparr>hash_enabled = Some True,
         hash_vertexes = Some [\<lparr>posX = 0, posY = 0, posZ = 0\<rparr>, \<lparr>posX = 1, posY = 0, posZ = 0\<rparr>,
                               \<lparr>posX = 0, posY = 1, posZ = 0\<rparr>],
         hash_insidePlotArea = Some False\<rparr>) = Some ''visible'' \<and>
   attr_visibility (face3d_animate orthographic face3d_new
      \<lparr>hash_enabled = Some True,
         hash_vertexes = Some [\<lparr>posX = 2, posY = 3, posZ = 0\<rparr>, \<lparr>posX = 2, posY = 3, posZ = 0\<rparr>,
                               \<lparr>posX = 2, posY = 3, posZ = 0\<rparr>],
         hash_insidePlotArea = Some False\<rparr>) = Some ''hidden''"
proof -
  let ?tri = "[\<lparr>posX = 0, posY = 0, posZ = 0\<rparr>, \<lparr>posX = 1, posY = 0, posZ = 0\<rparr>,
               \<lparr>posX = 0, posY = 1, posZ = 0\<rparr>]"
  let ?pt = "\<lparr>posX = 2, posY = 3, posZ = (0::real)\<rparr>"
  have area: "shapeArea (perspective orthographic ?tri False) > 0"
    by (simp add: shapeArea_def perspective_def orthographic_def upt_rec)
  have same: "\<forall>v \<in> set [?pt, ?pt, ?pt]. v = ?pt"
    by simp
  from face3d_visible_iff [of orthographic face3d_new True ?tri False ?pt] area
  have "attr_visibility (face3d_attr orthographic face3d_new
          \<lparr>hash_enabled = Some True, hash_vertexes = Some ?tri,
             hash_insidePlotArea = Some False\<rparr>) = Some ''visible''"
    by blast
  moreover from face3d_visible_iff [of orthographic face3d_new True "[?pt, ?pt, ?pt]" False ?pt] same
  have "attr_visibility (face3d_animate orthographic face3d_new
          \<lparr>hash_enabled = Some True, hash_vertexes = Some [?pt, ?pt, ?pt],
             hash_insidePlotArea = Some False\<rparr>) = Some ''hidden''"
    by blast
  ultimately show ?thesis
    using area by blast
qed

lemma pickShape_cases:
  "pickShape pArr path1 path2 =
     (if shapeArea (map (\<lambda>i. pArr ! i) path1) < 0 then (map (\<lambda>i. pArr ! i) path1, 0)
      else if shapeArea (map (\<lambda>i. pArr ! i) path2) < 0 then (map (\<lambda>i. pArr ! i) path2, 1)
      else ([], - 1))"
  by (simp add: pickShape_def Let_def)

lemma toLinePath_Nil: "toLinePath [] c = []"
  by (simp add: toLinePath_def)

text \<open>
  Claim C3, as amended.  For each of the pairs front/back, top/bottom and right/left,
  \<open>cuboidPath\<close> tests the first member first: if its projected polygon has negative
  signed area, the closed line path of the first member is returned; otherwise, if
  that of the second member is negative, the closed line path of the second; and if
  neither is negative (a face of zero size, or one seen edge-on), no face is chosen,
  the path is empty and the flag is \<open>-1\<close>.
\<close>

theorem cuboidPath_selection:
  fixes proj chart shapeArgs
  defines "r \<equiv> cuboidPath proj chart shapeArgs"
  defines "face \<equiv> cuboid_face proj shapeArgs"
  shows
    "(shapeArea (face [3, 2, 1, 0]) < 0 \<longrightarrow>
        front r = toLinePath (face [3, 2, 1, 0]) True \<and> isFront r = 0) \<and>
     (\<not> shapeArea (face [3, 2, 1, 0]) < 0 \<and> shapeArea (face [7, 6, 5, 4]) < 0 \<longrightarrow>
        front r = toLinePath (face [7, 6, 5, 4]) True \<and> isFront r = 1) \<and>
     (\<not> shapeArea (face [3, 2, 1, 0]) < 0 \<and> \<not> shapeArea (face [7, 6, 5, 4]) < 0 \<longrightarrow>
        front r = [] \<and> isFront r = - 1) \<and>
     (shapeArea (face [1, 6, 7, 0]) < 0 \<longrightarrow>
        top' r = toLinePath (face [1, 6, 7, 0]) True \<and> isTop r = 0) \<and>
     (\<not> shapeArea (face [1, 6, 7, 0]) < 0 \<and> shapeArea (face [4, 5, 2, 3]) < 0 \<longrightarrow>
        top' r = toLinePath (face [4, 5, 2, 3]) True \<and> isTop r = 1) \<and>
     (\<not> shapeArea (face [1, 6, 7, 0]) < 0 \<and> \<not> shapeArea (face [4, 5, 2, 3]) < 0 \<longrightarrow>
        top' r = [] \<and> isTop r = - 1) \<and>
     (shapeArea (face [1, 2, 5, 6]) < 0 \<longrightarrow>
        side r = toLinePath (face [1, 2, 5, 6]) True) \<and>
     (\<not> shapeArea (face [1, 2, 5, 6]) < 0 \<and> shapeArea (face [0, 7, 4, 3]) < 0 \<longrightarrow>
        side r = toLinePath (face [0, 7, 4, 3]) True) \<and>
     (\<not> shapeArea (face [1, 2, 5, 6]) < 0 \<and> \<not> shapeArea (face [0, 7, 4, 3]) < 0 \<longrightarrow>
        side r = [])"
  unfolding r_def face_def cuboidPath_def cuboid_face_def Let_def pickShape_cases
  by (simp add: toLinePath_Nil)

theorem cuboidPath_selection_witness:
  "shapeArea (cuboid_face orthographic
      \<lparr>sa_x = 0, sa_y = 0, sa_z = 0, sa_height = 1, sa_width = 1, sa_depth = 1,
         sa_insidePlotArea = False\<rparr> [3, 2, 1, 0]) < 0 \<and>
   front (cuboidPath orthographic \<lparr>options3d_alpha = 0, plotHeight = 100\<rparr>
      \<lparr>sa_x = 0, sa_y = 0, sa_z = 0, sa_height = 1, sa_width = 1, sa_depth = 1,
         sa_insidePlotArea = False\<rparr>) =
     [Str ''M'', Nbr 0, Nbr 1, Str ''L'', Nbr 1, Nbr 1, Str ''L'', Nbr 1, Nbr 0,
      Str ''L'', Nbr 0, Nbr 0, Str ''Z''] \<and>
   \<not> shapeArea (cuboid_face orthographic
      \<lparr>sa_x = 0, sa_y = 0, sa_z = 0, sa_height = 1, sa_width = 1, sa_depth = 1,
         sa_insidePlotArea = False\<rparr> [1, 6, 7, 0]) < 0 \<and>
   \<not> shapeArea (cuboid_face orthographic
      \<lparr>sa_x = 0, sa_y = 0, sa_z = 0, sa_height = 1, sa_width = 1, sa_depth = 1,
         sa_insidePlotArea = False\<rparr> [4, 5, 2, 3]) < 0 \<and>
   top' (cuboidPath orthographic \<lparr>options3d_alpha = 0, plotHeight = 100\<rparr>
      \<lparr>sa_x = 0, sa_y = 0, sa_z = 0, sa_height = 1, sa_width = 1, sa_depth = 1,
         sa_insidePlotArea = False\<rparr>) = []"
proof -
  let ?cube = "\<lparr>sa_x = 0, sa_y = 0, sa_z = 0, sa_height = 1, sa_width = 1, sa_depth = 1,
                 sa_insidePlotArea = False\<rparr>"
  let ?chart = "\<lparr>options3d_alpha = 0, plotHeight = 100\<rparr>"
  have f: "shapeArea (cuboid_face orthographic ?cube [3, 2, 1, 0]) < 0"
    by (simp add: shapeArea_def cuboid_face_def cuboid_corners_def perspective_def
        orthographic_def upt_rec)
  have t: "\<not> shapeArea (cuboid_face orthographic ?cube [1, 6, 7, 0]) < 0"
    by (simp add: shapeArea_def cuboid_face_def cuboid_corners_def perspective_def
        orthographic_def upt_rec)
  have b: "\<not> shapeArea (cuboid_face orthographic ?cube [4, 5, 2, 3]) < 0"
    by (simp add: shapeArea_def cuboid_face_def cuboid_corners_def perspective_def
        orthographic_def upt_rec)
  have path: "toLinePath (cuboid_face orthographic ?cube [3, 2, 1, 0]) True =
        [Str ''M'', Nbr 0, Nbr 1, Str ''L'', Nbr 1, Nbr 1, Str ''L'', Nbr 1, Nbr 0,
         Str ''L'', Nbr 0, Nbr 0, Str ''Z'']"
    by (simp add: toLinePath_def cuboid_face_def cuboid_corners_def perspective_def
        orthographic_def)
  from cuboidPath_selection [of orthographic ?cube ?chart] f t b
  have "front (cuboidPath orthographic ?chart ?cube) =
          toLinePath (cuboid_face orthographic ?cube [3, 2, 1, 0]) True"
    and "top' (cuboidPath orthographic ?chart ?cube) = []"
    by blast+
  with f t b path show ?thesis
    by simp
qed

text \<open>
  Claim C3 as stated fails where no member of a pair has negative area: a column of
  height 0 has a front and a back face of area 0, and \<open>cuboidPath\<close> returns the empty
  front path, which is the closed line path of neither.
\<close>

theorem cuboidPath_no_face_counterexample:
  "\<not> shapeArea (cuboid_face orthographic
      \<lparr>sa_x = 0, sa_y = 0, sa_z = 0, sa_height = 0, sa_width = 1, sa_depth = 1,
         sa_insidePlotArea = False\<rparr> [3, 2, 1, 0]) < 0 \<and>
   \<not> shapeArea (cuboid_face orthographic
      \<lparr>sa_x = 0, sa_y = 0, sa_z = 0, sa_height = 0, sa_width = 1, sa_depth = 1,
         sa_insidePlotArea = False\<rparr> [7, 6, 5, 4]) < 0 \<and>
   front (cuboidPath orthographic \<lparr>options3d_alpha = 0, plotHeight = 100\<rparr>
      \<lparr>sa_x = 0, sa_y = 0, sa_z = 0, sa_height = 0, sa_width = 1, sa_depth = 1,
         sa_insidePlotArea = False\<rparr>) = [] \<and>
   toLinePath (cuboid_face orthographic
      \<lparr>sa_x = 0, sa_y = 0, sa_z = 0, sa_height = 0, sa_width = 1, sa_depth = 1,
         sa_insidePlotArea = False\<rparr> [3, 2, 1, 0]) True \<noteq> [] \<and>
   toLinePath (cuboid_face orthographic
      \<lparr>sa_x = 0, sa_y = 0, sa_z = 0, sa_height = 0, sa_width = 1, sa_depth = 1,
         sa_insidePlotArea = False\<rparr> [7, 6, 5, 4]) True \<noteq> []"
  by (simp add: cuboidPath_def pickShape_def toLinePath_def shapeArea_def cuboid_face_def
      cuboid_corners_def perspective_def orthographic_def upt_rec Let_def)

lemma js_rem_bounds:
  assumes "0 \<le> a" and "0 < b"
  shows "0 \<le> js_rem a b \<and> js_rem a b < b"
proof -
  have q: "0 \<le> a / b"
    using assms by simp
  have lo: "of_int \<lfloor>a / b\<rfloor> \<le> a / b" and hi: "a / b < of_int \<lfloor>a / b\<rfloor> + 1"
    by linarith+
  have ab: "b * (a / b) = a"
    using assms(2) by simp
  have "b * of_int \<lfloor>a / b\<rfloor> \<le> b * (a / b)"
    using lo assms(2) by (intro mult_left_mono) simp_all
  then have "b * of_int \<lfloor>a / b\<rfloor> \<le> a"
    unfolding ab .
  moreover have "b * (a / b) < b * (of_int \<lfloor>a / b\<rfloor> + 1)"
    using hi assms(2) by (intro mult_strict_left_mono) simp_all
  then have "a < b * (of_int \<lfloor>a / b\<rfloor> + 1)"
    unfolding ab .
  ultimately show ?thesis
    using q by (simp add: js_rem_def algebra_simps)
qed

lemma toZeroPIRange_bounds:
  assumes "0 \<le> a"
  shows "0 \<le> toZeroPIRange a \<and> toZeroPIRange a \<le> pi"
proof -
  have "0 \<le> js_rem a (2 * pi) \<and> js_rem a (2 * pi) < 2 * pi"
    by (rule js_rem_bounds [OF assms]) simp
  then show ?thesis
    by (auto simp: toZeroPIRange_def Let_def)
qed

lemma js_rem_cos:
  assumes "0 \<le> a"
  shows "cos (js_rem a (2 * pi)) = cos a"
proof -
  have "0 \<le> a / (2 * pi)"
    using assms by simp
  then have "js_rem a (2 * pi) = a - 2 * pi * of_int \<lfloor>a / (2 * pi)\<rfloor>"
    by (simp add: js_rem_def)
  then show ?thesis
    by (simp add: cos_diff)
qed

lemma toZeroPIRange_arccos:
  assumes "0 \<le> a"
  shows "toZeroPIRange a = arccos (cos a)"
proof -
  define r where "r = js_rem a (2 * pi)"
  have b: "0 \<le> r" "r < 2 * pi"
    unfolding r_def using js_rem_bounds [OF assms, of "2 * pi"] by simp_all
  have c: "cos r = cos a"
    unfolding r_def by (rule js_rem_cos [OF assms])
  show ?thesis
  proof (cases "pi < r")
    case True
    have "arccos (cos (2 * pi - r)) = 2 * pi - r"
      using True b by (intro arccos_cos) simp_all
    then have "arccos (cos a) = 2 * pi - r"
      by (simp add: c)
    then show ?thesis
      using True by (simp add: toZeroPIRange_def Let_def r_def)
  next
    case False
    have "arccos (cos r) = r"
      using False b by (intro arccos_cos) simp_all
    then have "arccos (cos a) = r"
      by (simp add: c)
    then show ?thesis
      using False by (simp add: toZeroPIRange_def Let_def r_def)
  qed
qed

lemma toZeroPIRange_abs: "toZeroPIRange \<bar>v\<bar> = arccos (cos v)"
  using toZeroPIRange_arccos [of "\<bar>v\<bar>"] by simp

text \<open>
  Claim C4.  For every arc slice, the z-indexes returned by \<open>arc3dPath\<close> satisfy:
  \<open>zTop\<close> is strictly greater than \<open>zOut\<close>, \<open>zInn\<close>, \<open>zSide1\<close> and \<open>zSide2\<close>;
  \<open>zOut = zInn\<close>; \<open>zSide1\<close> and \<open>zSide2\<close> do not exceed \<open>zOut\<close>.  With the
  correction angle \<open>Math.atan2(dy, -dx)\<close> of the offset between top and bottom, the
  corrected angle of an angle \<open>\<theta>\<close> is \<open>\<theta>\<close> plus the correction, folded into
  \<open>[0, \<pi>]\<close>, that is \<open>arccos (cos (\<theta> + correction))\<close>.  \<open>zSide1\<close> is \<open>0.99 * 1e5\<close>
  times the corrected end angle (the end angle being \<open>end - 0.00001\<close>), \<open>zSide2\<close>
  is \<open>0.99 * 1e5\<close> times the corrected start angle, so that the two sides are ordered
  as these angles are; \<open>zOut\<close> is \<open>1e5\<close> times the greatest of the corrected start,
  middle and end angles, and \<open>zTop\<close> is \<open>\<pi> * 1e5 + 1\<close>.
\<close>

theorem arc3dPath_zIndex_order:
  fixes shapeArgs
  defines "z \<equiv> arc3dPath shapeArgs"
  defines "corr \<equiv> Math_atan2 (signed_times (arc_depth shapeArgs) (sin (arc_alpha shapeArgs)))
                    (signed_neg (signed_times (arc_depth shapeArgs) (sin (arc_beta shapeArgs))))"
  defines "angleStart \<equiv> arccos (cos (arc_start shapeArgs + corr))"
  defines "angleEnd \<equiv> arccos (cos (arc_end shapeArgs - 0.00001 + corr))"
  defines "angleMid \<equiv> arccos (cos ((arc_start shapeArgs + (arc_end shapeArgs - 0.00001)) / 2 + corr))"
  shows "zTop z > zOut z \<and> zTop z > zInn z \<and> zTop z > zSide1 z \<and> zTop z > zSide2 z \<and>
         zOut z = zInn z \<and> zSide1 z \<le> zOut z \<and> zSide2 z \<le> zOut z \<and>
         zSide1 z = angleEnd * 100000 * 0.99 \<and> zSide2 z = angleStart * 100000 * 0.99 \<and>
         (zSide1 z < zSide2 z \<longleftrightarrow> angleEnd < angleStart) \<and>
         zOut z = max (max (angleMid * 100000) (angleStart * 100000)) (angleEnd * 100000) \<and>
         zTop z = pi * 100000 + 1"
proof -
  have ang: "arc_angles shapeArgs = (angleMid, angleStart, angleEnd)"
    by (simp add: arc_angles_def Let_def toZeroPIRange_abs angleMid_def angleStart_def
        angleEnd_def corr_def)
  have b: "0 \<le> angleMid" "angleMid \<le> pi" "0 \<le> angleStart" "angleStart \<le> pi"
      "0 \<le> angleEnd" "angleEnd \<le> pi"
    unfolding angleMid_def angleStart_def angleEnd_def
    by (simp_all add: arccos_lbound arccos_ubound)
  define A1 where "A1 = angleMid * 100000"
  define A2 where "A2 = angleStart * 100000"
  define A3 where "A3 = angleEnd * 100000"
  define P where "P = pi * 100000"
  have A: "0 \<le> A1" "A1 \<le> P" "0 \<le> A2" "A2 \<le> P" "0 \<le> A3" "A3 \<le> P"
    using b by (simp_all add: A1_def A2_def A3_def P_def)
  have mx: "max (max A1 A2) A3 \<le> P" "A2 \<le> max (max A1 A2) A3" "A3 \<le> max (max A1 A2) A3"
    using A by simp_all
  have s1: "A3 * 0.99 \<le> A3" and s2: "A2 * 0.99 \<le> A2"
    using A by simp_all
  have sel: "zTop z = P + 1" "zOut z = max (max A1 A2) A3" "zInn z = max (max A1 A2) A3"
      "zSide1 z = A3 * 0.99" "zSide2 z = A2 * 0.99"
    by (simp_all add: z_def arc3dPath_def ang Let_def A1_def A2_def A3_def P_def)
  have c1: "zTop z > zOut z" and c2: "zTop z > zInn z"
    unfolding sel using mx(1) by linarith+
  have c3: "zTop z > zSide1 z"
    unfolding sel using s1 A(6) by linarith
  have c4: "zTop z > zSide2 z"
    unfolding sel using s2 A(4) by linarith
  have c5: "zOut z = zInn z"
    unfolding sel ..
  have c6: "zSide1 z \<le> zOut z"
    unfolding sel using s1 mx(3) by linarith
  have c7: "zSide2 z \<le> zOut z"
    unfolding sel using s2 mx(2) by linarith
  have c8: "zSide1 z = angleEnd * 100000 * 0.99" and c9: "zSide2 z = angleStart * 100000 * 0.99"
    unfolding sel A2_def A3_def by simp_all
  have c10: "zSide1 z < zSide2 z \<longleftrightarrow> angleEnd < angleStart"
    unfolding c8 c9 by simp
  have c11: "zOut z = max (max (angleMid * 100000) (angleStart * 100000)) (angleEnd * 100000)"
    unfolding sel A1_def A2_def A3_def ..
  have c12: "zTop z = pi * 100000 + 1"
    unfolding sel P_def ..
  from c1 c2 c3 c4 c5 c6 c7 c8 c9 c10 c11 c12 show ?thesis
    by blast
qed

theorem arc3dPath_zIndex_order_witness:
  "arc3dPath \<lparr>arc_x = 0, arc_y = 0, arc_start = 0, arc_end = 1, arc_r = 1, arc_innerR = 0,
              arc_depth = 10, arc_alpha = 0, arc_beta = 0\<rparr> =
     \<lparr>zTop = pi * 100000 + 1, zOut = pi * 100000, zInn = pi * 100000,
        zSide1 = (pi - 0.99999) * 100000 * 0.99, zSide2 = pi * 100000 * 0.99\<rparr> \<and>
   arc3dPath \<lparr>arc_x = 0, arc_y = 0, arc_start = 0, arc_end = 1, arc_r = 1, arc_innerR = 0,
              arc_depth = 10, arc_alpha = 1, arc_beta = 0\<rparr> =
     \<lparr>zTop = pi * 100000 + 1, zOut = (pi / 2 + 0.99999) * 100000,
        zInn = (pi / 2 + 0.99999) * 100000,
        zSide1 = (pi / 2 + 0.99999) * 100000 * 0.99, zSide2 = pi / 2 * 100000 * 0.99\<rparr>"
proof -
  let ?A = "\<lparr>arc_x = 0, arc_y = 0, arc_start = 0, arc_end = 1, arc_r = 1, arc_innerR = 0,
             arc_depth = 10, arc_alpha = 0, arc_beta = 0\<rparr>"
  let ?B = "\<lparr>arc_x = 0, arc_y = 0, arc_start = 0, arc_end = 1, arc_r = 1, arc_innerR = 0,
             arc_depth = 10, arc_alpha = 1, arc_beta = 0\<rparr>"
  have corrA: "Math_atan2 (signed_times (arc_depth ?A) (sin (arc_alpha ?A)))
                 (signed_neg (signed_times (arc_depth ?A) (sin (arc_beta ?A)))) = pi"
    by (simp add: Math_atan2_def signed_times_def signed_neg_def)
  have pi3: "2 \<le> pi"
    by (rule pi_ge_two)
  have e1: "arccos (cos (0 + pi)) = pi"
    by simp
  have e2: "arccos (cos (1 - 0.00001 + pi)) = pi - 0.99999"
  proof -
    have "arccos (cos (0.99999 + pi)) = arccos (- cos 0.99999)"
      by (simp only: cos_periodic_pi)
    also have "\<dots> = pi - arccos (cos 0.99999)"
      by (rule arccos_minus) simp_all
    also have "arccos (cos 0.99999) = 0.99999"
      using pi3 by (intro arccos_cos) simp_all
    finally show ?thesis by simp
  qed
  have e3: "arccos (cos ((0 + (1 - 0.00001)) / 2 + pi)) = pi - 0.499995"
  proof -
    have "arccos (cos (0.499995 + pi)) = arccos (- cos 0.499995)"
      by (simp only: cos_periodic_pi)
    also have "\<dots> = pi - arccos (cos 0.499995)"
      by (rule arccos_minus) simp_all
    also have "arccos (cos 0.499995) = 0.499995"
      using pi3 by (intro arccos_cos) simp_all
    finally show ?thesis by simp
  qed
  have A: "arc3dPath ?A =
     \<lparr>zTop = pi * 100000 + 1, zOut = pi * 100000, zInn = pi * 100000,
        zSide1 = (pi - 0.99999) * 100000 * 0.99, zSide2 = pi * 100000 * 0.99\<rparr>"
  proof -
    note t = arc3dPath_zIndex_order [of ?A, unfolded corrA]
    have "zTop (arc3dPath ?A) = pi * 100000 + 1"
      using t by simp
    moreover have s1: "zSide1 (arc3dPath ?A) = (pi - 0.99999) * 100000 * 0.99"
      using t e2 by simp
    moreover have s2: "zSide2 (arc3dPath ?A) = pi * 100000 * 0.99"
      using t e1 by simp
    moreover have o: "zOut (arc3dPath ?A) = pi * 100000"
      using t e1 e2 e3 by simp
    moreover have "zInn (arc3dPath ?A) = pi * 100000"
      using t o by simp
    ultimately show ?thesis
      by (cases "arc3dPath ?A") simp
  qed
  have s1: "0 < sin (1::real)"
    using pi3 by (intro sin_gt_zero) simp_all
  have corrB: "Math_atan2 (signed_times (arc_depth ?B) (sin (arc_alpha ?B)))
                 (signed_neg (signed_times (arc_depth ?B) (sin (arc_beta ?B)))) = pi / 2"
    using s1 by (simp add: Math_atan2_def signed_times_def signed_neg_def)
  have f1: "arccos (cos (0 + pi / 2)) = pi / 2"
    by simp
  have f2: "arccos (cos (1 - 0.00001 + pi / 2)) = pi / 2 + 0.99999"
  proof -
    have "arccos (cos (pi / 2 + 0.99999)) = pi / 2 + 0.99999"
      using pi3 by (intro arccos_cos) simp_all
    then show ?thesis by (simp add: add.commute)
  qed
  have f3: "arccos (cos ((0 + (1 - 0.00001)) / 2 + pi / 2)) = pi / 2 + 0.499995"
  proof -
    have "arccos (cos (pi / 2 + 0.499995)) = pi / 2 + 0.499995"
      using pi3 by (intro arccos_cos) simp_all
    then show ?thesis by (simp add: add.commute)
  qed
  have B: "arc3dPath ?B =
     \<lparr>zTop = pi * 100000 + 1, zOut = (pi / 2 + 0.99999) * 100000,
        zInn = (pi / 2 + 0.99999) * 100000,
        zSide1 = (pi / 2 + 0.99999) * 100000 * 0.99, zSide2 = pi / 2 * 100000 * 0.99\<rparr>"
  proof -
    note t = arc3dPath_zIndex_order [of ?B, unfolded corrB]
    have "zTop (arc3dPath ?B) = pi * 100000 + 1"
      using t by simp
    moreover have "zSide1 (arc3dPath ?B) = (pi / 2 + 0.99999) * 100000 * 0.99"
      using t f2 by simp
    moreover have "zSide2 (arc3dPath ?B) = pi / 2 * 100000 * 0.99"
      using t f1 by simp
    moreover have o: "zOut (arc3dPath ?B) = (pi / 2 + 0.99999) * 100000"
      using t f1 f2 f3 by simp
    moreover have "zInn (arc3dPath ?B) = (pi / 2 + 0.99999) * 100000"
      using t o by simp
    ultimately show ?thesis
      by (cases "arc3dPath ?B") simp
  qed
  from A B show ?thesis ..
qed

section \<open>Grid axis: outermost axis and tiling cells\<close>

lemma outer_fold_last:
  "fold (outer_step store axis coll) is (t, l) =
     (if filter (\<lambda>i. same_side_external store axis (coll ! i) \<and>
                      Some (coll ! i) = outer_parentAxis store axis) is = [] then t
      else int (last (filter (\<lambda>i. same_side_external store axis (coll ! i) \<and>
                      Some (coll ! i) = outer_parentAxis store axis) is)),
      if filter (\<lambda>i. same_side_external store axis (coll ! i)) is = [] then l
      else int (last (filter (\<lambda>i. same_side_external store axis (coll ! i)) is)))"
proof (induction "is" arbitrary: t l)
  case Nil
  then show ?case by simp
next
  case (Cons i "is")
  define t' where "t' = (if same_side_external store axis (coll ! i) \<and>
                            Some (coll ! i) = outer_parentAxis store axis then int i else t)"
  define l' where "l' = (if same_side_external store axis (coll ! i) then int i else l)"
  have st: "outer_step store axis coll i (t, l) = (t', l')"
    by (simp add: outer_step_def Let_def t'_def l'_def)
  have "fold (outer_step store axis coll) (i # is) (t, l) =
        fold (outer_step store axis coll) is (t', l')"
    by (simp add: st)
  then show ?case
    unfolding Cons.IH by (simp add: t'_def l'_def)
qed

lemma last_filter_upt:
  assumes "filter P [0..<n] \<noteq> []"
  shows "last (filter P [0..<n]) < n \<and> P (last (filter P [0..<n])) \<and>
         (\<forall>j < n. P j \<longrightarrow> j \<le> last (filter P [0..<n]))"
  using assms
proof (induction n)
  case 0
  then show ?case by simp
next
  case (Suc n)
  show ?case
  proof (cases "P n")
    case True
    then show ?thesis
      by (auto simp: less_Suc_eq)
  next
    case False
    with Suc.prems have ne: "filter P [0..<n] \<noteq> []"
      by simp
    from Suc.IH [OF ne] False show ?thesis
      by (auto simp: less_Suc_eq)
  qed
qed

lemma filter_upt_nonempty: "filter P [0..<n] \<noteq> [] \<longleftrightarrow> (\<exists>i < n. P i)"
  by (auto simp: filter_empty_conv)

lemma outer_indexes_equal:
  assumes "fold (outer_step store axis coll) [0..<length coll] (- 1, 0) = (thisIndex, lastIndex)"
  shows "lastIndex = thisIndex \<longleftrightarrow> (\<exists>i. highest_on_side store coll axis i)"
proof -
  define P1 where "P1 = (\<lambda>i. same_side_external store axis (coll ! i))"
  define P2 where "P2 = (\<lambda>i. same_side_external store axis (coll ! i) \<and>
                          Some (coll ! i) = outer_parentAxis store axis)"
  define n where "n = length coll"
  define ms where "ms = filter P1 [0..<n]"
  define ps where "ps = filter P2 [0..<n]"
  have t: "thisIndex = (if ps = [] then - 1 else int (last ps))"
    and l: "lastIndex = (if ms = [] then 0 else int (last ms))"
    using assms unfolding outer_fold_last
    by (auto simp: ps_def ms_def P1_def P2_def n_def)
  have hs: "highest_on_side store coll axis i \<longleftrightarrow>
            i < n \<and> P2 i \<and> (\<forall>j < n. P1 j \<longrightarrow> j \<le> i)" for i
    by (auto simp: highest_on_side_def P1_def P2_def n_def)
  have P21: "P2 i \<Longrightarrow> P1 i" for i
    by (simp add: P1_def P2_def)
  show ?thesis
  proof
    assume eq: "lastIndex = thisIndex"
    have ps_ne: "ps \<noteq> []"
    proof
      assume "ps = []"
      with t l eq show False by (simp split: if_splits)
    qed
    then have "\<exists>i < n. P2 i"
      by (simp add: ps_def filter_upt_nonempty)
    then have ms_ne: "ms \<noteq> []"
      using P21 by (auto simp: ms_def filter_upt_nonempty)
    from eq t l ps_ne ms_ne have same: "last ms = last ps"
      by simp
    from last_filter_upt [of P2 n] ps_ne have "last ps < n" "P2 (last ps)"
      by (simp_all add: ps_def)
    moreover from last_filter_upt [of P1 n] ms_ne have "\<forall>j < n. P1 j \<longrightarrow> j \<le> last ms"
      by (simp add: ms_def)
    ultimately have "highest_on_side store coll axis (last ps)"
      unfolding hs same by simp
    then show "\<exists>i. highest_on_side store coll axis i" ..
  next
    assume "\<exists>i. highest_on_side store coll axis i"
    then obtain i where i: "i < n" "P2 i" "\<forall>j < n. P1 j \<longrightarrow> j \<le> i"
      unfolding hs by blast
    then have ps_ne: "ps \<noteq> []" and ms_ne: "ms \<noteq> []"
      using P21 by (auto simp: ps_def ms_def filter_upt_nonempty)
    from last_filter_upt [of P2 n] ps_ne
    have p: "last ps < n" "P2 (last ps)" "\<forall>j < n. P2 j \<longrightarrow> j \<le> last ps"
      by (simp_all add: ps_def)
    from last_filter_upt [of P1 n] ms_ne
    have m: "last ms < n" "P1 (last ms)" "\<forall>j < n. P1 j \<longrightarrow> j \<le> last ms"
      by (simp_all add: ms_def)
    have "last ps = i"
      using p i P21 by (meson le_antisym)
    moreover have "last ms = i"
      using m i P21 by (meson le_antisym)
    ultimately show "lastIndex = thisIndex"
      using t l ps_ne ms_ne by simp
  qed
qed

lemma isOuterAxis_True_iff:
  "isOuterAxis store coll axis = Inr True \<longleftrightarrow>
     (\<exists>i. highest_on_side store coll axis i) \<and>
     (\<forall>k. columnIndex (store axis) = Some k \<longrightarrow>
          (\<exists>cs. outer_columns store axis = Some cs \<and> length cs = k))"
proof -
  obtain thisIndex lastIndex where
    f: "fold (outer_step store axis coll) [0..<length coll] (- 1, 0) = (thisIndex, lastIndex)"
    by fastforce
  note eq = outer_indexes_equal [OF f]
  show ?thesis
  proof (cases "lastIndex = thisIndex")
    case True
    with eq have "\<exists>i. highest_on_side store coll axis i"
      by simp
    with True show ?thesis
      unfolding isOuterAxis_def f
      by (auto split: option.splits)
  next
    case False
    with eq have "\<not> (\<exists>i. highest_on_side store coll axis i)"
      by simp
    with False show ?thesis
      unfolding isOuterAxis_def f by simp
  qed
qed

lemma isOuterAxis_plain:
  assumes "columnIndex (store axis) = None"
  shows "isOuterAxis store coll axis = Inr (\<exists>i. highest_on_side store coll axis i)"
proof -
  obtain thisIndex lastIndex where
    f: "fold (outer_step store axis coll) [0..<length coll] (- 1, 0) = (thisIndex, lastIndex)"
    by fastforce
  from outer_indexes_equal [OF f] assms show ?thesis
    unfolding isOuterAxis_def f by simp
qed

lemma three_axes_on_a_side:
  assumes d: "distinct [a0, a1, a2]"
    and p: "\<forall>a \<in> {a0, a1, a2}. side_of (store a) = axisSide_left \<and> \<not> isInternal (store a) \<and>
                               columnIndex (store a) = None"
  shows "isOuterAxis store [a0, a1, a2] a0 = Inr False \<and>
         isOuterAxis store [a0, a1, a2] a1 = Inr False \<and>
         isOuterAxis store [a0, a1, a2] a2 = Inr True"
proof -
  have ss: "same_side_external store a b" if "a \<in> {a0, a1, a2}" "b \<in> {a0, a1, a2}" for a b
    using p that by (auto simp: same_side_external_def)
  have pa: "outer_parentAxis store a = Some a" if "a \<in> {a0, a1, a2}" for a
    using p that by (auto simp: outer_parentAxis_def)
  have h: "highest_on_side store [a0, a1, a2] a i \<longleftrightarrow> i = 2 \<and> a = a2"
    if a: "a \<in> {a0, a1, a2}" for a i
  proof
    assume hs: "highest_on_side store [a0, a1, a2] a i"
    then have i: "i < 3" and par: "[a0, a1, a2] ! i = a"
      and mx: "\<forall>j < 3. same_side_external store a ([a0, a1, a2] ! j) \<longrightarrow> j \<le> i"
      using pa [OF a] by (auto simp: highest_on_side_def)
    have "same_side_external store a ([a0, a1, a2] ! 2)"
      using ss [OF a, of a2] by simp
    with mx have "2 \<le> i" by auto
    with i have "i = 2" by simp
    with par show "i = 2 \<and> a = a2" by simp
  next
    assume "i = 2 \<and> a = a2"
    then show "highest_on_side store [a0, a1, a2] a i"
      using pa [of a2] ss [of a2] by (auto simp: highest_on_side_def less_Suc_eq numeral_3_eq_3)
  qed
  have c: "columnIndex (store a) = None" if "a \<in> {a0, a1, a2}" for a
    using p that by auto
  have "isOuterAxis store [a0, a1, a2] a = Inr (a = a2)" if a: "a \<in> {a0, a1, a2}" for a
    using isOuterAxis_plain [of store a "[a0, a1, a2]"] c [OF a] h [OF a] by simp
  from this [of a0] this [of a1] this [of a2] d show ?thesis
    by auto
qed

lemma isOuterAxis_explicit:
  "isOuterAxis store coll axis = Inr True \<longleftrightarrow>
      (\<exists>i < length coll.
          side_of (store (coll ! i)) = side_of (store axis) \<and>
          \<not> isInternal (store (coll ! i)) \<and>
          (\<forall>j < length coll.
              side_of (store (coll ! j)) = side_of (store axis) \<and>
              \<not> isInternal (store (coll ! j)) \<longrightarrow> j \<le> i) \<and>
          (case columnIndex (store axis) of
             None \<Rightarrow> coll ! i = axis
           | Some k \<Rightarrow> if k = 0 then coll ! i = axis
                       else linkedParent (store axis) = Some (coll ! i))) \<and>
      (\<forall>k. columnIndex (store axis) = Some k \<longrightarrow>
           (\<exists>cs. length cs = k \<and>
                 (case linkedParent (store axis) of
                    None \<Rightarrow> columns (store axis) = Some cs
                  | Some parent \<Rightarrow>
                      (case columns (store parent) of
                         Some cs' \<Rightarrow> cs' = cs
                       | None \<Rightarrow> columns (store axis) = Some cs))))"
proof -
  have a: "(\<exists>i. highest_on_side store coll axis i) \<longleftrightarrow>
      (\<exists>i < length coll.
          side_of (store (coll ! i)) = side_of (store axis) \<and>
          \<not> isInternal (store (coll ! i)) \<and>
          (\<forall>j < length coll.
              side_of (store (coll ! j)) = side_of (store axis) \<and>
              \<not> isInternal (store (coll ! j)) \<longrightarrow> j \<le> i) \<and>
          (case columnIndex (store axis) of
             None \<Rightarrow> coll ! i = axis
           | Some k \<Rightarrow> if k = 0 then coll ! i = axis
                       else linkedParent (store axis) = Some (coll ! i)))"
    unfolding highest_on_side_def same_side_external_def outer_parentAxis_def
    by (cases "columnIndex (store axis)") auto
  have b: "(\<exists>cs. outer_columns store axis = Some cs \<and> length cs = k) \<longleftrightarrow>
           (\<exists>cs. length cs = k \<and>
                 (case linkedParent (store axis) of
                    None \<Rightarrow> columns (store axis) = Some cs
                  | Some parent \<Rightarrow>
                      (case columns (store parent) of
                         Some cs' \<Rightarrow> cs' = cs
                       | None \<Rightarrow> columns (store axis) = Some cs)))" for k
    unfolding outer_columns_def by (auto split: option.splits)
  show ?thesis
    unfolding isOuterAxis_True_iff a b ..
qed

text \<open>
  Claim C8.  \<open>isOuterAxis\<close> returns true if and only if, first, among the axes of the
  collection that are on the side of this axis and whose options are not internal, the
  one with the highest index is this axis, or is its linked parent when this axis is a
  column axis (one with a non-zero \<open>columnIndex\<close>); and second, when the axis has a
  numeric \<open>columnIndex\<close>, that index equals the length of the owning \<open>columns\<close>
  array: that of the linked parent if it has one, else that of the axis.  Among three
  plain, non-internal axes on the left side, exactly the one with the highest index
  yields true.
\<close>

theorem isOuterAxis_outermost:
  "(isOuterAxis store coll axis = Inr True \<longleftrightarrow>
      (\<exists>i < length coll.
          side_of (store (coll ! i)) = side_of (store axis) \<and>
          \<not> isInternal (store (coll ! i)) \<and>
          (\<forall>j < length coll.
              side_of (store (coll ! j)) = side_of (store axis) \<and>
              \<not> isInternal (store (coll ! j)) \<longrightarrow> j \<le> i) \<and>
          (case columnIndex (store axis) of
             None \<Rightarrow> coll ! i = axis
           | Some k \<Rightarrow> if k = 0 then coll ! i = axis
                       else linkedParent (store axis) = Some (coll ! i))) \<and>
      (\<forall>k. columnIndex (store axis) = Some k \<longrightarrow>
           (\<exists>cs. length cs = k \<and>
                 (case linkedParent (store axis) of
                    None \<Rightarrow> columns (store axis) = Some cs
                  | Some parent \<Rightarrow>
                      (case columns (store parent) of
                         Some cs' \<Rightarrow> cs' = cs
                       | None \<Rightarrow> columns (store axis) = Some cs))))) \<and>
   (distinct [a0, a1, a2] \<and>
    (\<forall>a \<in> {a0, a1, a2}. side_of (store a) = axisSide_left \<and> \<not> isInternal (store a) \<and>
                          columnIndex (store a) = None) \<longrightarrow>
      isOuterAxis store [a0, a1, a2] a0 = Inr False \<and>
      isOuterAxis store [a0, a1, a2] a1 = Inr False \<and>
      isOuterAxis store [a0, a1, a2] a2 = Inr True)"
  using isOuterAxis_explicit [of store coll axis] three_axes_on_a_side [of a0 a1 a2 store]
  by blast

theorem isOuterAxis_outermost_witness:
  "distinct [0, 1, 2::nat] \<and>
   side_of \<lparr>side_of = 3, isInternal = False, columnIndex = None, columns = None,
             linkedParent = None\<rparr> = axisSide_left \<and>
   isOuterAxis (\<lambda>a. \<lparr>side_of = 3, isInternal = False, columnIndex = None, columns = None,
                        linkedParent = None\<rparr>) [0, 1, 2] 0 = Inr False \<and>
   isOuterAxis (\<lambda>a. \<lparr>side_of = 3, isInternal = False, columnIndex = None, columns = None,
                        linkedParent = None\<rparr>) [0, 1, 2] 1 = Inr False \<and>
   isOuterAxis (\<lambda>a. \<lparr>side_of = 3, isInternal = False, columnIndex = None, columns = None,
                        linkedParent = None\<rparr>) [0, 1, 2] 2 = Inr True \<and>
   isOuterAxis (\<lambda>a. \<lparr>side_of = (if a = 2 then 1 else 3), isInternal = (a = 1),
                        columnIndex = None, columns = None, linkedParent = None\<rparr>)
               [0, 1, 2] 0 = Inr True \<and>
   isOuterAxis (\<lambda>a. \<lparr>side_of = (if a = 2 then 1 else 3), isInternal = (a = 1),
                        columnIndex = None, columns = None, linkedParent = None\<rparr>)
               [0, 1, 2] 1 = Inr False \<and>
   isOuterAxis (\<lambda>a. \<lparr>side_of = (if a = 2 then 1 else 3), isInternal = (a = 1),
                        columnIndex = None, columns = None, linkedParent = None\<rparr>)
               [0, 1, 2] 2 = Inr True \<and>
   isOuterAxis (\<lambda>a. \<lparr>side_of = (if a = 2 then 1 else 3), isInternal = (a = 1),
                        columnIndex = None, columns = None, linkedParent = None\<rparr>)
               [0, 1, 2, 3] 0 = Inr False \<and>
   isOuterAxis (\<lambda>a. if a = 0
                      then \<lparr>side_of = 3, isInternal = False, columnIndex = Some 0,
                              columns = Some [10, 11], linkedParent = None\<rparr>
                      else \<lparr>side_of = 3, isInternal = False, columnIndex = Some (a - 9),
                              columns = None, linkedParent = Some 0\<rparr>)
               [0] 0 = Inr False \<and>
   isOuterAxis (\<lambda>a. if a = 0
                      then \<lparr>side_of = 3, isInternal = False, columnIndex = Some 0,
                              columns = Some [10, 11], linkedParent = None\<rparr>
                      else \<lparr>side_of = 3, isInternal = False, columnIndex = Some (a - 9),
                              columns = None, linkedParent = Some 0\<rparr>)
               [0] 10 = Inr False \<and>
   isOuterAxis (\<lambda>a. if a = 0
                      then \<lparr>side_of = 3, isInternal = False, columnIndex = Some 0,
                              columns = Some [10, 11], linkedParent = None\<rparr>
                      else \<lparr>side_of = 3, isInternal = False, columnIndex = Some (a - 9),
                              columns = None, linkedParent = Some 0\<rparr>)
               [0] 11 = Inr True \<and>
   isOuterAxis (\<lambda>a. if a = 0
                      then \<lparr>side_of = 3, isInternal = False, columnIndex = None,
                              columns = None, linkedParent = None\<rparr>
                      else \<lparr>side_of = 3, isInternal = False, columnIndex = Some 1,
                              columns = None, linkedParent = Some 0\<rparr>)
               [0] 5 = Inl TypeError"
proof -
  let ?S = "\<lambda>a::nat. \<lparr>side_of = 3, isInternal = False, columnIndex = None, columns = None,
                        linkedParent = None\<rparr>"
  let ?T = "\<lambda>a::nat. \<lparr>side_of = (if a = 2 then 1 else 3), isInternal = (a = 1),
                        columnIndex = None, columns = None, linkedParent = None\<rparr>"
  let ?U = "\<lambda>a::nat. if a = 0
                      then \<lparr>side_of = 3, isInternal = False, columnIndex = Some 0,
                              columns = Some [10, 11], linkedParent = None\<rparr>
                      else \<lparr>side_of = 3, isInternal = False, columnIndex = Some (a - 9),
                              columns = None, linkedParent = Some 0\<rparr>"
  let ?V = "\<lambda>a::nat. if a = 0
                      then \<lparr>side_of = 3, isInternal = False, columnIndex = None,
                              columns = None, linkedParent = None\<rparr>
                      else \<lparr>side_of = 3, isInternal = False, columnIndex = Some 1,
                              columns = None, linkedParent = Some 0\<rparr>"
  have d: "distinct [0, 1, 2::nat]"
    by simp
  have l: "side_of (?S 0) = axisSide_left"
    by (simp add: axisSide_left_def)
  have p: "\<forall>a \<in> {0, 1, 2}. side_of (?S a) = axisSide_left \<and> \<not> isInternal (?S a) \<and>
                             columnIndex (?S a) = None"
    by (simp add: axisSide_left_def)
  from isOuterAxis_outermost [of ?S "[0, 1, 2]" 2 0 1 2] d p
  have S: "isOuterAxis ?S [0, 1, 2] 0 = Inr False \<and> isOuterAxis ?S [0, 1, 2] 1 = Inr False \<and>
        isOuterAxis ?S [0, 1, 2] 2 = Inr True"
    by blast
  have T0: "isOuterAxis ?T [0, 1, 2] 0 = Inr True"
  proof -
    let ?C = "[0, 1, 2::nat]"
    have "0 < length ?C \<and>
          side_of (?T (?C ! 0)) = side_of (?T 0) \<and>
          \<not> isInternal (?T (?C ! 0)) \<and>
          (\<forall>j < length ?C.
              side_of (?T (?C ! j)) = side_of (?T 0) \<and>
              \<not> isInternal (?T (?C ! j)) \<longrightarrow> j \<le> 0) \<and>
          (case columnIndex (?T 0) of
             None \<Rightarrow> ?C ! 0 = 0
           | Some k \<Rightarrow> if k = 0 then ?C ! 0 = 0
                       else linkedParent (?T 0) = Some (?C ! 0))"
      by (simp add: less_Suc_eq numeral_3_eq_3)
    then have "\<exists>i < length ?C.
          side_of (?T (?C ! i)) = side_of (?T 0) \<and>
          \<not> isInternal (?T (?C ! i)) \<and>
          (\<forall>j < length ?C.
              side_of (?T (?C ! j)) = side_of (?T 0) \<and>
              \<not> isInternal (?T (?C ! j)) \<longrightarrow> j \<le> i) \<and>
          (case columnIndex (?T 0) of
             None \<Rightarrow> ?C ! i = 0
           | Some k \<Rightarrow> if k = 0 then ?C ! i = 0
                       else linkedParent (?T 0) = Some (?C ! i))"
      by blast
    moreover have "\<forall>k. columnIndex (?T 0) = Some k \<longrightarrow>
           (\<exists>cs. length cs = k \<and>
                 (case linkedParent (?T 0) of
                    None \<Rightarrow> columns (?T 0) = Some cs
                  | Some parent \<Rightarrow>
                      (case columns (?T parent) of
                         Some cs' \<Rightarrow> cs' = cs
                       | None \<Rightarrow> columns (?T 0) = Some cs)))"
      by simp
    ultimately show ?thesis
      using isOuterAxis_outermost [of ?T ?C 0 0 1 2, THEN conjunct1] by blast
  qed
  have T: "isOuterAxis ?T [0, 1, 2] 1 = Inr False" "isOuterAxis ?T [0, 1, 2] 2 = Inr True"
      "isOuterAxis ?T [0, 1, 2, 3] 0 = Inr False"
    by (simp_all add: isOuterAxis_def outer_step_def same_side_external_def
        outer_parentAxis_def outer_columns_def upt_rec)
  have U: "isOuterAxis ?U [0] 0 = Inr False" "isOuterAxis ?U [0] 10 = Inr False"
      "isOuterAxis ?U [0] 11 = Inr True"
    by (simp_all add: isOuterAxis_def outer_step_def same_side_external_def
        outer_parentAxis_def outer_columns_def upt_rec)
  have V: "isOuterAxis ?V [0] 5 = Inl TypeError"
    by (simp add: isOuterAxis_def outer_step_def same_side_external_def
        outer_parentAxis_def outer_columns_def upt_rec)
  from d l S T0 T U V show ?thesis
    by simp
qed











end
